theory Spec2Isabelle
  imports Main "HOL-Library.Sublist"
begin

section \<open>Multipart file trees (files/multipartfile.go)\<close>

text \<open>
  A shallow embedding of \<^verbatim>\<open>files/multipartfile.go\<close>: the part classifier
  \<^verbatim>\<open>newFileFromPart\<close>, the one-slot lookahead buffer \<^verbatim>\<open>peekReader\<close> and the
  directory iterator \<^verbatim>\<open>multipartIterator\<close>.  Go strings are byte strings and are
  modelled as \<^typ>\<open>string\<close>.  The functions of Go's standard library that the file calls
  (\<^verbatim>\<open>path.Split\<close>, \<^verbatim>\<open>path.Clean\<close>, \<^verbatim>\<open>strings.HasPrefix\<close>, \<^verbatim>\<open>url.QueryUnescape\<close>)
  are written out after their library sources; \<^verbatim>\<open>mime.ParseMediaType\<close> is a parameter.
\<close>

subsection \<open>Errors\<close>

text \<open>
  Go errors are compared by identity in this file.  The package's own sentinels and
  \<^verbatim>\<open>io.EOF\<close> are constructors; \<^verbatim>\<open>errors.New\<close> values carry their message; errors
  that come out of the standard library (escape errors, media type errors, read errors of a
  part body, errors of the underlying part source) are wrapped, so that they can never be
  equal to a sentinel.
\<close>

datatype error =
    EOF
  | ErrPartOutsideParent
  | ErrPartInChildTree
  | ErrNotDirectory
  | ErrorsNew string
  | EscapeError string
  | MediaTypeError string
  | ReadError string
  | SourceError string

subsection \<open>Constants of the file\<close>

definition multipartFormdataType :: string where
  "multipartFormdataType = ''multipart/form-data''"

definition applicationDirectory :: string where
  "applicationDirectory = ''application/x-directory''"

definition applicationSymlink :: string where
  "applicationSymlink = ''application/symlink''"

definition applicationFile :: string where
  "applicationFile = ''application/octet-stream''"

definition contentTypeHeader :: string where
  "contentTypeHeader = ''Content-Type''"

subsection \<open>Standard library: strings, path, url\<close>

text \<open>\<^verbatim>\<open>strings.HasPrefix(s, prefix)\<close>: \<^verbatim>\<open>len(s) >= len(prefix) && s[:len(prefix)] == prefix\<close>.\<close>

definition HasPrefix :: "string \<Rightarrow> string \<Rightarrow> bool" where
  "HasPrefix s pre \<longleftrightarrow> length pre \<le> length s \<and> take (length pre) s = pre"

text \<open>
  \<^verbatim>\<open>path.Split\<close>: \<^verbatim>\<open>i := strings.LastIndex(path, "/"); return path[:i+1], path[i+1:]\<close>.
  \<open>lastSlash\<close> is \<open>i + 1\<close>: the length of the prefix that ends with the final slash, 0
  when there is no slash.
\<close>

fun lastSlash :: "string \<Rightarrow> nat" where
  "lastSlash [] = 0"
| "lastSlash (c # cs) =
     (let k = lastSlash cs in
      if k \<noteq> 0 then Suc k else if c = CHR ''/'' then 1 else 0)"

definition path_Split :: "string \<Rightarrow> string \<times> string" where
  "path_Split p = (take (lastSlash p) p, drop (lastSlash p) p)"

text \<open>
  \<^verbatim>\<open>path.Clean\<close>.  The output buffer \<open>out\<close> holds the bytes written so far (its length
  is the write index \<^verbatim>\<open>out.w\<close>), \<open>rest\<close> is \<^verbatim>\<open>path[r:]\<close>, and \<open>dotdot\<close> is the index
  where backtracking must stop.  \<open>backtrack\<close> is the inner loop of the \<^verbatim>\<open>..\<close> case after
  the first \<^verbatim>\<open>out.w--\<close>: it moves \<open>w\<close> down while \<^verbatim>\<open>w > dotdot && out[w] != '/'\<close>.
\<close>

fun backtrack :: "string \<Rightarrow> nat \<Rightarrow> nat \<Rightarrow> nat" where
  "backtrack out dotdot 0 = 0"
| "backtrack out dotdot (Suc w) =
     (if Suc w > dotdot \<and> out ! Suc w \<noteq> CHR ''/'' then backtrack out dotdot w else Suc w)"

function clean_loop :: "bool \<Rightarrow> string \<Rightarrow> string \<Rightarrow> nat \<Rightarrow> string" where
  "clean_loop rooted rest out dotdot =
     (case rest of
        [] \<Rightarrow> out
      | c # t \<Rightarrow>
          if c = CHR ''/'' then clean_loop rooted t out dotdot
          else if c = CHR ''.'' \<and> (t = [] \<or> hd t = CHR ''/'') then clean_loop rooted t out dotdot
          else if c = CHR ''.'' \<and> hd t = CHR ''.'' \<and> (tl t = [] \<or> hd (tl t) = CHR ''/'') then
            (if length out > dotdot then
               clean_loop rooted (tl t) (take (backtrack out dotdot (length out - 1)) out) dotdot
             else if \<not> rooted then
               (let out1 = (if length out > 0 then out @ ''/'' else out) @ ''..''
                in clean_loop rooted (tl t) out1 (length out1))
             else clean_loop rooted (tl t) out dotdot)
          else
            (let out1 = (if rooted \<and> length out \<noteq> 1 \<or> \<not> rooted \<and> length out \<noteq> 0
                         then out @ ''/'' else out)
             in clean_loop rooted (dropWhile (\<lambda>x. x \<noteq> CHR ''/'') rest)
                  (out1 @ takeWhile (\<lambda>x. x \<noteq> CHR ''/'') rest) dotdot))"
  by pat_completeness auto
termination
proof (relation "measure (\<lambda>(rooted, rest, out, dotdot). length rest)")
  show "wf (measure (\<lambda>(rooted, rest, out, dotdot). length rest))" by simp
next
  fix rooted :: bool and rest out :: string and dotdot :: nat and c :: char and t :: string
  and out1 :: string
  assume "rest = c # t" and "c \<noteq> CHR ''/''"
  then have "length (dropWhile (\<lambda>x. x \<noteq> CHR ''/'') rest) \<le> length t"
    by (simp add: length_dropWhile_le)
  then show "((rooted, dropWhile (\<lambda>x. x \<noteq> CHR ''/'') rest,
               out1 @ takeWhile (\<lambda>x. x \<noteq> CHR ''/'') rest, dotdot),
              (rooted, rest, out, dotdot))
             \<in> measure (\<lambda>(rooted, rest, out, dotdot). length rest)"
    using \<open>rest = c # t\<close> by simp
qed (auto simp: less_Suc_eq_le)

declare clean_loop.simps [simp del]

definition path_Clean :: "string \<Rightarrow> string" where
  "path_Clean p =
     (if p = [] then ''.''
      else
        (let rooted = (hd p = CHR ''/'');
             out = (if rooted then clean_loop True (tl p) ''/'' 1
                    else clean_loop False p [] 0)
         in if out = [] then ''.'' else out))"

text \<open>
  \<^verbatim>\<open>url.QueryUnescape\<close>: a first pass checks that every \<^verbatim>\<open>%\<close> is followed by two hex
  digits (otherwise an escape error carrying at most three bytes from the \<^verbatim>\<open>%\<close> on), a
  second pass decodes \<^verbatim>\<open>%XX\<close> to the byte and \<^verbatim>\<open>+\<close> to a space.
\<close>

definition ishex :: "char \<Rightarrow> bool" where
  "ishex c \<longleftrightarrow>
     (let n = (of_char c :: nat) in
      (48 \<le> n \<and> n \<le> 57) \<or> (97 \<le> n \<and> n \<le> 102) \<or> (65 \<le> n \<and> n \<le> 70))"

definition unhex :: "char \<Rightarrow> nat" where
  "unhex c =
     (let n = (of_char c :: nat) in
      if 48 \<le> n \<and> n \<le> 57 then n - 48
      else if 97 \<le> n \<and> n \<le> 102 then n - 97 + 10
      else if 65 \<le> n \<and> n \<le> 70 then n - 65 + 10
      else 0)"

fun unescape_check :: "string \<Rightarrow> error option" where
  "unescape_check [] = None"
| "unescape_check (c # t) =
     (if c = CHR ''%'' then
        (if length t < 2 \<or> \<not> ishex (t ! 0) \<or> \<not> ishex (t ! 1)
         then Some (EscapeError (take 3 (c # t)))
         else unescape_check (drop 2 t))
      else unescape_check t)"

fun unescape_build :: "string \<Rightarrow> string" where
  "unescape_build [] = []"
| "unescape_build (c # t) =
     (if c = CHR ''%'' then
        char_of (unhex (t ! 0) * 16 + unhex (t ! 1)) # unescape_build (drop 2 t)
      else if c = CHR ''+'' then CHR '' '' # unescape_build t
      else c # unescape_build t)"

definition QueryUnescape :: "string \<Rightarrow> string \<times> error option" where
  "QueryUnescape s =
     (case unescape_check s of
        Some e \<Rightarrow> ([], Some e)
      | None \<Rightarrow> (unescape_build s, None))"

subsection \<open>Parts and the underlying part source\<close>

text \<open>
  A \<^verbatim>\<open>multipart.Part\<close> as this file sees it: the string \<^verbatim>\<open>Part.FileName()\<close> returns,
  the header (each key with its first value; keys are taken as already canonical, the
  canonicalisation of \<^verbatim>\<open>Header.Get\<close> is left out), and the body with the outcome of
  reading it to the end (\<open>BodyErr\<close> is the message of the read failure, if the read
  fails).
\<close>

record part =
  FileName :: string
  Header :: "(string \<times> string) list"
  Body :: string
  BodyErr :: "string option"

text \<open>\<^verbatim>\<open>Header.Get\<close>: the value stored under the key, the empty string when there is none.\<close>

definition Header_Get :: "part \<Rightarrow> string \<Rightarrow> string" where
  "Header_Get p k = (case map_of (Header p) k of None \<Rightarrow> [] | Some v \<Rightarrow> v)"

text \<open>\<^verbatim>\<open>ioutil.ReadAll(part)\<close>: the bytes and the error, as Go returns both.\<close>

definition ReadAll :: "part \<Rightarrow> string \<times> error option" where
  "ReadAll p = (Body p, map_option ReadError (BodyErr p))"

text \<open>
  \<^verbatim>\<open>mime.ParseMediaType\<close> is not part of this file; it is a parameter that returns the
  media type and the message of the parse error, if any.
\<close>

type_synonym mime_parser = "string \<Rightarrow> string \<times> string option"

text \<open>
  The underlying \<^verbatim>\<open>PartReader\<close> (the \<^verbatim>\<open>*multipart.Reader\<close>) is a finite script of
  answers to \<^verbatim>\<open>NextPart\<close>: a part, \<^verbatim>\<open>io.EOF\<close>, or another error.  When the script is
  used up it answers \<^verbatim>\<open>io.EOF\<close>.  \<open>src_calls\<close> counts the calls it has received.  The
  one \<^verbatim>\<open>peekReader\<close> of a traversal lives in the same state: \<open>pr_r\<close> says that its
  field \<^verbatim>\<open>r\<close> is not nil, \<open>pr_next\<close> is its field \<^verbatim>\<open>next\<close>.
\<close>

datatype outcome = Got part | SrcEOF | SrcFail string

record world =
  src_items :: "outcome list"
  src_calls :: nat
  pr_r :: bool
  pr_next :: "part option"

definition source_NextPart :: "world \<Rightarrow> (error + part) \<times> world" where
  "source_NextPart w =
     (case src_items w of
        [] \<Rightarrow> (Inl EOF, w\<lparr>src_calls := Suc (src_calls w)\<rparr>)
      | Got p # rest \<Rightarrow> (Inr p, w\<lparr>src_items := rest, src_calls := Suc (src_calls w)\<rparr>)
      | SrcEOF # rest \<Rightarrow> (Inl EOF, w\<lparr>src_items := rest, src_calls := Suc (src_calls w)\<rparr>)
      | SrcFail m # rest \<Rightarrow>
          (Inl (SourceError m), w\<lparr>src_items := rest, src_calls := Suc (src_calls w)\<rparr>))"

subsection \<open>The lookahead buffer: peekReader\<close>

definition peekReader_NextPart :: "world \<Rightarrow> (error + part) \<times> world" where
  "peekReader_NextPart w =
     (case pr_next w of
        Some p \<Rightarrow> (Inr p, w\<lparr>pr_next := None\<rparr>)
      | None \<Rightarrow>
          if \<not> pr_r w then (Inl EOF, w)
          else
            (case source_NextPart w of
               (res, w') \<Rightarrow> (res, if res = Inl EOF then w'\<lparr>pr_r := False\<rparr> else w')))"

definition peekReader_put :: "part \<Rightarrow> world \<Rightarrow> error option \<times> world" where
  "peekReader_put p w =
     (if pr_next w \<noteq> None then (Some (ErrorsNew ''cannot put multiple parts''), w)
      else (None, w\<lparr>pr_next := Some p\<rparr>))"

subsection \<open>Nodes and the part classifier\<close>

text \<open>
  The \<^verbatim>\<open>Reader\<close> of a \<^verbatim>\<open>MultipartFile\<close> is an interface value: nil, the \<^verbatim>\<open>*peekReader\<close>, or
  a \<^verbatim>\<open>PartReader\<close> of another dynamic type (here: the underlying source itself).
\<close>

datatype part_reader = PeekReader | OtherReader

record multipartFile =
  Part :: "part option"
  Reader :: "part_reader option"
  Mediatype :: string

datatype node =
    ReaderFile part string
  | Symlink string
  | Directory multipartFile

definition isDirectory :: "string \<Rightarrow> bool" where
  "isDirectory mediatype \<longleftrightarrow>
     mediatype = multipartFormdataType \<or> mediatype = applicationDirectory"

definition fileName :: "multipartFile \<Rightarrow> string" where
  "fileName f =
     (case Part f of
        None \<Rightarrow> []
      | Some p \<Rightarrow>
          (case QueryUnescape (FileName p) of
             (filename, None) \<Rightarrow> filename
           | (filename, Some e) \<Rightarrow> FileName p))"

definition newFileFromPart ::
  "mime_parser \<Rightarrow> string \<Rightarrow> part \<Rightarrow> part_reader option \<Rightarrow> string \<times> node option \<times> error option"
where
  "newFileFromPart ParseMediaType parent part reader =
     (let f = \<lparr>Part = Some part, Reader = reader, Mediatype = []\<rparr>;
          (dir0, base) = path_Split (fileName f);
          dir1 = path_Clean dir0;
          parent1 = path_Clean parent;
          dir = (if dir1 = ''.'' then [] else dir1);
          parent2 = (if parent1 = ''.'' then [] else parent1)
      in
        if dir \<noteq> parent2 then
          (if HasPrefix dir parent2 then ([], None, Some ErrPartInChildTree)
           else ([], None, Some ErrPartOutsideParent))
        else
          (let contentType = Header_Get part contentTypeHeader in
           if contentType = applicationSymlink then
             (case ReadAll part of
                (out, Some e) \<Rightarrow> ([], None, Some e)
              | (out, None) \<Rightarrow> (base, Some (Symlink out), None))
           else if contentType = [] \<or> contentType = applicationFile then
             (base, Some (ReaderFile part (Header_Get part ''abspath'')), None)
           else
             (case ParseMediaType contentType of
                (mt, Some m) \<Rightarrow> ([], None, Some (MediaTypeError m))
              | (mt, None) \<Rightarrow>
                  if \<not> isDirectory mt then
                    (base, Some (ReaderFile part (Header_Get part ''abspath'')), None)
                  else (base, Some (Directory (f\<lparr>Mediatype := mt\<rparr>)), None))))"

definition NewFileFromPartReader :: "outcome list \<Rightarrow> string \<Rightarrow> error + multipartFile \<times> world" where
  "NewFileFromPartReader reader mediatype =
     (if \<not> isDirectory mediatype then Inl ErrNotDirectory
      else Inr (\<lparr>Part = None, Reader = Some PeekReader, Mediatype = mediatype\<rparr>,
                \<lparr>src_items = reader, src_calls = 0, pr_r = True, pr_next = None\<rparr>))"

subsection \<open>The directory iterator\<close>

record multipartIterator =
  it_f :: multipartFile
  it_curFile :: "node option"
  it_curName :: string
  it_err :: "error option"

definition Entries :: "multipartFile \<Rightarrow> multipartIterator" where
  "Entries f = \<lparr>it_f = f, it_curFile = None, it_curName = [], it_err = None\<rparr>"

definition Name :: "multipartIterator \<Rightarrow> string" where
  [simp]: "Name it = it_curName it"

definition Node :: "multipartIterator \<Rightarrow> node option" where
  [simp]: "Node it = it_curFile it"

definition Err :: "multipartIterator \<Rightarrow> error option" where
  "Err it = it_err it"

definition Reader_NextPart :: "part_reader \<Rightarrow> world \<Rightarrow> (error + part) \<times> world" where
  "Reader_NextPart rd w =
     (case rd of PeekReader \<Rightarrow> peekReader_NextPart w | OtherReader \<Rightarrow> source_NextPart w)"

text \<open>The pending answers: what the readers can still deliver before the first end.\<close>

definition pending :: "world \<Rightarrow> nat" where
  "pending w = length (src_items w) + (case pr_next w of None \<Rightarrow> 0 | Some p \<Rightarrow> 1)"

lemma Reader_NextPart_pending:
  "Reader_NextPart rd w = (Inr p, w') \<Longrightarrow> pending w' < pending w"
  by (auto simp: Reader_NextPart_def peekReader_NextPart_def source_NextPart_def pending_def
      split: part_reader.splits option.splits if_splits list.splits outcome.splits prod.splits)

text \<open>
  The code of \<^verbatim>\<open>Next\<close> after its loop (``we read too much, try to fix this''): the type
  assertion on the reader and the pushback.
\<close>

definition Next_undo ::
  "multipartIterator \<Rightarrow> part_reader \<Rightarrow> part \<Rightarrow> world \<Rightarrow> bool \<times> multipartIterator \<times> world"
where
  "Next_undo it rd part w =
     (case rd of
        OtherReader \<Rightarrow> (False, it\<lparr>it_err := Some (ErrorsNew ''cannot undo NextPart'')\<rparr>, w)
      | PeekReader \<Rightarrow>
          (case peekReader_put part w of (e, w') \<Rightarrow> (False, it\<lparr>it_err := e\<rparr>, w')))"

function Next_loop ::
  "mime_parser \<Rightarrow> multipartIterator \<Rightarrow> part_reader \<Rightarrow> world \<Rightarrow> bool \<times> multipartIterator \<times> world"
where
  "Next_loop pm it rd w =
     (case Reader_NextPart rd w of
        (Inl e, w') \<Rightarrow>
          if e = EOF then (False, it, w') else (False, it\<lparr>it_err := Some e\<rparr>, w')
      | (Inr part, w') \<Rightarrow>
          (case newFileFromPart pm (fileName (it_f it)) part (Some rd) of
             (name, cf, e) \<Rightarrow>
               if e = Some ErrPartOutsideParent then Next_undo it rd part w'
               else if e \<noteq> Some ErrPartInChildTree then
                 (e = None, it\<lparr>it_curFile := cf, it_curName := name, it_err := e\<rparr>, w')
               else Next_loop pm it rd w'))"
  by pat_completeness auto
termination
  by (relation "measure (\<lambda>(pm, it, rd, w). pending w)")
     (auto dest: Reader_NextPart_pending [OF sym])

declare Next_loop.simps [simp del]

definition Next :: "mime_parser \<Rightarrow> multipartIterator \<Rightarrow> world \<Rightarrow> bool \<times> multipartIterator \<times> world" where
  "Next pm it w =
     (case Reader (it_f it) of
        None \<Rightarrow> (False, it, w)
      | Some rd \<Rightarrow> Next_loop pm it rd w)"

subsection \<open>Vocabulary of the statements\<close>

text \<open>
  The two normalisations of \<^verbatim>\<open>newFileFromPart\<close> (\<^verbatim>\<open>path.Clean\<close>, then \<^verbatim>\<open>"."\<close> becomes the
  empty string), and the directory and base name a part declares.
\<close>

definition cleanDir :: "string \<Rightarrow> string" where
  "cleanDir p = (if path_Clean p = ''.'' then [] else path_Clean p)"

definition partName :: "part \<Rightarrow> string" where
  "partName p = fileName \<lparr>Part = Some p, Reader = None, Mediatype = []\<rparr>"

definition declaredDir :: "part \<Rightarrow> string" where
  "declaredDir p = cleanDir (fst (path_Split (partName p)))"

definition baseName :: "part \<Rightarrow> string" where
  "baseName p = snd (path_Split (partName p))"

text \<open>Sequences of operations on the lookahead buffer, as its clients issue them.\<close>

datatype buffer_op = Pull | PushBack part

fun run_ops :: "buffer_op list \<Rightarrow> world \<Rightarrow> world" where
  "run_ops [] w = w"
| "run_ops (Pull # ops) w = run_ops ops (snd (peekReader_NextPart w))"
| "run_ops (PushBack p # ops) w = run_ops ops (snd (peekReader_put p w))"

text \<open>Repeated advances of one iterator: the outcome of the last of \<open>Suc n\<close> calls.\<close>

fun advances ::
  "mime_parser \<Rightarrow> nat \<Rightarrow> multipartIterator \<Rightarrow> world \<Rightarrow> bool \<times> multipartIterator \<times> world"
where
  "advances pm 0 it w = Next pm it w"
| "advances pm (Suc n) it w = (case Next pm it w of (ok, it', w') \<Rightarrow> advances pm n it' w')"

text \<open>
  Pulling the parts \<open>ps\<close>, in this order, from a reader: the state after the last pull,
  or \<open>None\<close> when the reader delivers something else.
\<close>

fun skip_parts :: "part_reader \<Rightarrow> part list \<Rightarrow> world \<Rightarrow> world option" where
  "skip_parts rd [] w = Some w"
| "skip_parts rd (p # ps) w =
     (case Reader_NextPart rd w of
        (Inr q, w') \<Rightarrow> if q = p then skip_parts rd ps w' else None
      | (Inl e, w') \<Rightarrow> None)"

text \<open>
  The directories of a traversal tree rooted by \<^verbatim>\<open>NewFileFromPartReader\<close>: the root it
  returns, and every directory node that an iterator over such a directory yields, in any
  state of the readers.
\<close>

inductive in_tree :: "mime_parser \<Rightarrow> multipartFile \<Rightarrow> bool" for pm :: mime_parser where
  root: "NewFileFromPartReader reader mediatype = Inr (d, w) \<Longrightarrow> in_tree pm d"
| child: "in_tree pm d \<Longrightarrow> it_f it = d \<Longrightarrow> Next pm it w = (True, it', w') \<Longrightarrow>
          it_curFile it' = Some (Directory d') \<Longrightarrow> in_tree pm d'"

subsection \<open>Trees of entries and the draining consumer\<close>

text \<open>
  What a traversal yields: per directory the entries of its iterator in order, each with
  its name and the kind of its node, a directory entry together with the entries of its
  own iterator.  \<open>flatten_list\<close> lists a forest depth-first in pre-order, every entry
  with its path.
\<close>

datatype kind = FileKind | SymlinkKind | DirKind

datatype entry = FileEntry string | LinkEntry string | DirEntry string "entry list"

definition joinPath :: "string \<Rightarrow> string \<Rightarrow> string" where
  "joinPath dir name = (if dir = [] then name else dir @ ''/'' @ name)"

fun flatten :: "string \<Rightarrow> entry \<Rightarrow> (string \<times> kind) list"
  and flatten_list :: "string \<Rightarrow> entry list \<Rightarrow> (string \<times> kind) list" where
  "flatten dir (FileEntry n) = [(joinPath dir n, FileKind)]"
| "flatten dir (LinkEntry n) = [(joinPath dir n, SymlinkKind)]"
| "flatten dir (DirEntry n es) = (joinPath dir n, DirKind) # flatten_list (joinPath dir n) es"
| "flatten_list dir [] = []"
| "flatten_list dir (e # es) = flatten dir e @ flatten_list dir es"

fun nodes :: "entry \<Rightarrow> nat" and nodes_list :: "entry list \<Rightarrow> nat" where
  "nodes (FileEntry n) = 1"
| "nodes (LinkEntry n) = 1"
| "nodes (DirEntry n es) = Suc (nodes_list es)"
| "nodes_list [] = 0"
| "nodes_list (e # es) = nodes e + nodes_list es"

definition proper :: "string \<Rightarrow> bool" where
  "proper n \<longleftrightarrow> n \<noteq> [] \<and> CHR ''/'' \<notin> set n \<and> n \<noteq> ''.'' \<and> n \<noteq> ''..''"

fun proper_entry :: "entry \<Rightarrow> bool" and proper_forest :: "entry list \<Rightarrow> bool" where
  "proper_entry (FileEntry n) = proper n"
| "proper_entry (LinkEntry n) = proper n"
| "proper_entry (DirEntry n es) = (proper n \<and> proper_forest es)"
| "proper_forest [] = True"
| "proper_forest (e # es) = (proper_entry e \<and> proper_forest es)"

text \<open>
  The kind of node the classifier builds for a direct child, read off the Content-Type;
  \<open>None\<close> when the classifier fails on the part (unreadable symlink body, unparsable
  media type).
\<close>

definition part_kind :: "mime_parser \<Rightarrow> part \<Rightarrow> kind option" where
  "part_kind pm p =
     (let ct = Header_Get p contentTypeHeader in
      if ct = applicationSymlink then (if BodyErr p = None then Some SymlinkKind else None)
      else if ct = [] \<or> ct = applicationFile then Some FileKind
      else (case pm ct of
              (mt, Some m) \<Rightarrow> None
            | (mt, None) \<Rightarrow> if isDirectory mt then Some DirKind else Some FileKind))"

text \<open>
  Modelled from the spec: the consumer of the iterators, which is not in this file.  It
  follows the protocol of the note on \<^verbatim>\<open>MultipartFile\<close> (``when iterator returns a
  directory, you MUST read all it's children before calling Next again''): it advances an
  iterator until \<^verbatim>\<open>Next\<close> returns false and, whenever the entry is a directory, first
  drains the iterator of that directory.  The result is the forest of yielded entries, the
  final iterator and the final state.  \<open>fuel\<close> bounds the depth of the recursion;
  \<open>None\<close> means that the fuel ran out (or that a successful advance left no node, which
  \<^verbatim>\<open>Next\<close> never does).
\<close>

fun drain ::
  "mime_parser \<Rightarrow> nat \<Rightarrow> multipartIterator \<Rightarrow> world \<Rightarrow>
   (entry list \<times> multipartIterator \<times> world) option"
where
  "drain pm 0 it w = None"
| "drain pm (Suc n) it w =
     (case Next pm it w of
        (False, it', w') \<Rightarrow> Some ([], it', w')
      | (True, it', w') \<Rightarrow>
          (case Node it' of
             None \<Rightarrow> None
           | Some (ReaderFile b a) \<Rightarrow>
               (case drain pm n it' w' of
                  None \<Rightarrow> None
                | Some (es, r) \<Rightarrow> Some (FileEntry (Name it') # es, r))
           | Some (Symlink t) \<Rightarrow>
               (case drain pm n it' w' of
                  None \<Rightarrow> None
                | Some (es, r) \<Rightarrow> Some (LinkEntry (Name it') # es, r))
           | Some (Directory d) \<Rightarrow>
               (case drain pm n (Entries d) w' of
                  None \<Rightarrow> None
                | Some (sub, itd, w'') \<Rightarrow>
                    (case drain pm n it' w'' of
                       None \<Rightarrow> None
                     | Some (es, r) \<Rightarrow> Some (DirEntry (Name it') sub # es, r)))))"

text \<open>
  Notions of the proofs: paths made of proper segments, the parts a state of the readers
  will still deliver through the lookahead buffer, part sequences that match a list of
  paths and kinds, and a remainder whose first part is outside-parent for a directory.
\<close>

fun joinSegs :: "string list \<Rightarrow> string" where
  "joinSegs [] = []"
| "joinSegs [n] = n"
| "joinSegs (n # m # ms) = n @ ''/'' @ joinSegs (m # ms)"

definition cleanPath :: "string \<Rightarrow> bool" where
  "cleanPath p \<longleftrightarrow> (\<exists>segs. list_all proper segs \<and> p = joinSegs segs)"

definition feeds :: "world \<Rightarrow> part list \<Rightarrow> bool" where
  "feeds w xs \<longleftrightarrow>
     (\<exists>tail. xs = (case pr_next w of None \<Rightarrow> [] | Some p \<Rightarrow> [p]) @ tail \<and>
             (if pr_r w then src_items w = map Got tail else tail = []))"

definition matches :: "mime_parser \<Rightarrow> part list \<Rightarrow> (string \<times> kind) list \<Rightarrow> bool" where
  "matches pm ps xs \<longleftrightarrow>
     map (\<lambda>p. (partName p, part_kind pm p)) ps = map (\<lambda>(path, k). (path, Some k)) xs"

definition beyond :: "string \<Rightarrow> part list \<Rightarrow> bool" where
  "beyond dir rest \<longleftrightarrow>
     (case rest of [] \<Rightarrow> True
      | r # rs \<Rightarrow> declaredDir r \<noteq> dir \<and> \<not> HasPrefix (declaredDir r) dir)"

fun entry_name :: "entry \<Rightarrow> string" where
  "entry_name (FileEntry n) = n"
| "entry_name (LinkEntry n) = n"
| "entry_name (DirEntry n es) = n"

subsection \<open>Sample data\<close>

text \<open>
  A stand-in for \<^verbatim>\<open>mime.ParseMediaType\<close> on concrete inputs: the text before the first
  semicolon, refused when its type or its subtype is empty.  It is used at concrete inputs
  only; the general statements hold for every parser.
\<close>

definition sample_ParseMediaType :: mime_parser where
  "sample_ParseMediaType v =
     (let base = takeWhile (\<lambda>c. c \<noteq> CHR '';'') v;
          typ = takeWhile (\<lambda>c. c \<noteq> CHR ''/'') base;
          rest = dropWhile (\<lambda>c. c \<noteq> CHR ''/'') base
      in if typ = [] then ([], Some ''mime: no media type'')
         else if rest = [] then (base, None)
         else if tl rest = [] then ([], Some ''mime: expected token after slash'')
         else (base, None))"

definition sample_part :: "string \<Rightarrow> string \<Rightarrow> string \<Rightarrow> part" where
  "sample_part name ctype body =
     \<lparr>FileName = name, Header = [(contentTypeHeader, ctype)], Body = body, BodyErr = None\<rparr>"

definition sample_world :: "outcome list \<Rightarrow> part option \<Rightarrow> world" where
  "sample_world items nxt = \<lparr>src_items = items, src_calls = 0, pr_r = True, pr_next = nxt\<rparr>"

definition sample_root :: multipartFile where
  "sample_root = \<lparr>Part = None, Reader = Some PeekReader, Mediatype = multipartFormdataType\<rparr>"

definition sample_ax :: part where "sample_ax = sample_part ''a%2Fx.txt'' applicationFile ''x''"

definition sample_ay :: part where "sample_ay = sample_part ''a%2Fy.txt'' applicationFile ''y''"

definition sample_b :: part where "sample_b = sample_part ''b.txt'' applicationFile ''b''"

definition sample_dir_a :: multipartFile where
  "sample_dir_a = \<lparr>Part = Some (sample_part ''a'' multipartFormdataType []),
                   Reader = Some PeekReader, Mediatype = multipartFormdataType\<rparr>"

definition sample_bad :: part where "sample_bad = sample_part ''bad'' ''text/'' []"

definition sample_a :: part where "sample_a = sample_part ''a'' multipartFormdataType []"

definition sample_az :: part where "sample_az = sample_part ''a%2Fz.txt'' applicationFile ''z''"

definition sample_parts :: "part list" where
  "sample_parts =
     [sample_part ''a'' multipartFormdataType [],
      sample_part ''a%2Fx.txt'' applicationFile ''x'',
      sample_part ''a%2Fsub'' applicationDirectory [],
      sample_part ''a%2Fsub%2Flink'' applicationSymlink ''../x.txt'',
      sample_part ''a%2Fy.txt'' [] ''y'',
      sample_part ''ab'' applicationDirectory [],
      sample_part ''abc'' applicationDirectory [],
      sample_part ''abc%2Fz'' ''text/plain'' ''z'',
      sample_part ''b.txt'' applicationFile ''b'']"

definition sample_tree :: "entry list" where
  "sample_tree =
     [DirEntry ''a'' [FileEntry ''x.txt'', DirEntry ''sub'' [LinkEntry ''link''],
        FileEntry ''y.txt''],
      DirEntry ''ab'' [], DirEntry ''abc'' [FileEntry ''z''], FileEntry ''b.txt'']"

section \<open>Properties\<close>

subsection \<open>The lookahead buffer\<close>

lemma peekReader_put_empty:
  "pr_next w = None \<Longrightarrow> peekReader_put p w = (None, w\<lparr>pr_next := Some p\<rparr>)"
  by (simp add: peekReader_put_def)

lemma peekReader_put_full:
  "pr_next w = Some q \<Longrightarrow>
   peekReader_put p w = (Some (ErrorsNew ''cannot put multiple parts''), w)"
  by (simp add: peekReader_put_def)

lemma peekReader_NextPart_pending_part:
  "pr_next w = Some p \<Longrightarrow> peekReader_NextPart w = (Inr p, w\<lparr>pr_next := None\<rparr>)"
  by (simp add: peekReader_NextPart_def)

lemma peekReader_NextPart_slot_empty:
  "peekReader_NextPart w = (res, w') \<Longrightarrow> pr_next w' = None"
  by (auto simp: peekReader_NextPart_def source_NextPart_def
      split: option.splits if_splits list.splits outcome.splits)

lemma peekReader_NextPart_exhausted:
  "\<not> pr_r w \<Longrightarrow> pr_next w = None \<Longrightarrow> peekReader_NextPart w = (Inl EOF, w)"
  by (simp add: peekReader_NextPart_def)

lemma peekReader_NextPart_EOF_drops_source:
  "peekReader_NextPart w = (Inl EOF, w') \<Longrightarrow> \<not> pr_r w'"
  by (auto simp: peekReader_NextPart_def source_NextPart_def
      split: option.splits if_splits list.splits outcome.splits)

text \<open>
  C8.  The lookahead buffer holds at most one pending part.  With a part \<open>q\<close> pending, a
  pushback fails with the protocol-violation error and leaves the buffer as it was (so
  \<open>q\<close> stays pending).  A pushback into an empty slot succeeds, and the next pull returns
  exactly that part and empties the slot again.  Hence a second pushback right after a
  successful one fails and the first part stays pending.
\<close>

theorem peekReader_single_slot:
  "(pr_next w = Some q \<longrightarrow>
      peekReader_put p w = (Some (ErrorsNew ''cannot put multiple parts''), w)) \<and>
   (pr_next w = None \<longrightarrow>
      peekReader_put p w = (None, w\<lparr>pr_next := Some p\<rparr>) \<and>
      peekReader_NextPart (snd (peekReader_put p w)) = (Inr p, w) \<and>
      peekReader_put p' (snd (peekReader_put p w)) =
        (Some (ErrorsNew ''cannot put multiple parts''), w\<lparr>pr_next := Some p\<rparr>))"
  by (simp add: peekReader_put_def peekReader_NextPart_def)

theorem peekReader_single_slot_witness:
  "peekReader_put (sample_part ''b.txt'' [] [])
     (sample_world [] (Some (sample_part ''a'' [] []))) =
     (Some (ErrorsNew ''cannot put multiple parts''),
      sample_world [] (Some (sample_part ''a'' [] []))) \<and>
   peekReader_put (sample_part ''b.txt'' [] []) (sample_world [] None) =
     (None, sample_world [] (Some (sample_part ''b.txt'' [] []))) \<and>
   peekReader_NextPart (snd (peekReader_put (sample_part ''b.txt'' [] []) (sample_world [] None))) =
     (Inr (sample_part ''b.txt'' [] []), sample_world [] None) \<and>
   peekReader_put (sample_part ''c.txt'' [] [])
     (snd (peekReader_put (sample_part ''b.txt'' [] []) (sample_world [] None))) =
     (Some (ErrorsNew ''cannot put multiple parts''),
      sample_world [] (Some (sample_part ''b.txt'' [] [])))"
  using
    peekReader_single_slot [of "sample_world [] (Some (sample_part ''a'' [] []))"
      "sample_part ''a'' [] []" "sample_part ''b.txt'' [] []" "sample_part ''c.txt'' [] []"]
    peekReader_single_slot [of "sample_world [] None"
      "sample_part ''a'' [] []" "sample_part ''b.txt'' [] []" "sample_part ''c.txt'' [] []"]
  by (auto simp: sample_world_def)

lemma run_ops_exhausted:
  "\<not> pr_r w \<Longrightarrow>
   \<not> pr_r (run_ops ops w) \<and> src_calls (run_ops ops w) = src_calls w \<and>
   src_items (run_ops ops w) = src_items w"
proof (induction ops arbitrary: w)
  case Nil
  then show ?case by simp
next
  case (Cons op ops)
  show ?case
  proof (cases op)
    case Pull
    have "\<not> pr_r (snd (peekReader_NextPart w))"
      and "src_calls (snd (peekReader_NextPart w)) = src_calls w"
      and "src_items (snd (peekReader_NextPart w)) = src_items w"
      using Cons.prems by (auto simp: peekReader_NextPart_def split: option.splits)
    with Cons.IH [of "snd (peekReader_NextPart w)"] Pull show ?thesis by simp
  next
    case (PushBack p)
    have "\<not> pr_r (snd (peekReader_put p w))"
      and "src_calls (snd (peekReader_put p w)) = src_calls w"
      and "src_items (snd (peekReader_put p w)) = src_items w"
      using Cons.prems by (auto simp: peekReader_put_def)
    with Cons.IH [of "snd (peekReader_put p w)"] PushBack show ?thesis by simp
  qed
qed

text \<open>
  C9.  Once a pull has returned end-of-input (the underlying source signalled it, and the
  buffer dropped its reference to the source), the buffer is exhausted for good: after any
  further sequence of pulls and pushbacks the source reference is still dropped, the
  source has received no further call and has lost no answer, and a pull with no pending
  part returns end-of-input and changes nothing.
\<close>

theorem peekReader_exhausted_forever:
  assumes "peekReader_NextPart w = (Inl EOF, w1)"
  shows "\<not> pr_r (run_ops ops w1) \<and>
         src_calls (run_ops ops w1) = src_calls w1 \<and>
         src_items (run_ops ops w1) = src_items w1 \<and>
         (pr_next (run_ops ops w1) = None \<longrightarrow>
            peekReader_NextPart (run_ops ops w1) = (Inl EOF, run_ops ops w1))"
proof -
  have dropped: "\<not> pr_r w1"
    using assms by (rule peekReader_NextPart_EOF_drops_source)
  then have "\<not> pr_r (run_ops ops w1)"
    and "src_calls (run_ops ops w1) = src_calls w1"
    and "src_items (run_ops ops w1) = src_items w1"
    using run_ops_exhausted [of w1 ops] by simp_all
  then show ?thesis
    by (simp add: peekReader_NextPart_exhausted)
qed

theorem peekReader_exhausted_forever_witness:
  "peekReader_NextPart (sample_world [SrcEOF, Got (sample_part ''late.txt'' [] [])] None) =
     (Inl EOF, \<lparr>src_items = [Got (sample_part ''late.txt'' [] [])], src_calls = 1,
                pr_r = False, pr_next = None\<rparr>) \<and>
   run_ops [Pull, PushBack (sample_part ''a'' [] []), Pull, Pull]
     \<lparr>src_items = [Got (sample_part ''late.txt'' [] [])], src_calls = 1,
      pr_r = False, pr_next = None\<rparr> =
     \<lparr>src_items = [Got (sample_part ''late.txt'' [] [])], src_calls = 1,
      pr_r = False, pr_next = None\<rparr> \<and>
   peekReader_NextPart
     (run_ops [Pull, PushBack (sample_part ''a'' [] []), Pull, Pull]
        \<lparr>src_items = [Got (sample_part ''late.txt'' [] [])], src_calls = 1,
         pr_r = False, pr_next = None\<rparr>) =
     (Inl EOF, \<lparr>src_items = [Got (sample_part ''late.txt'' [] [])], src_calls = 1,
                pr_r = False, pr_next = None\<rparr>)"
proof -
  let ?w = "sample_world [SrcEOF, Got (sample_part ''late.txt'' [] [])] None"
  let ?w1 = "\<lparr>src_items = [Got (sample_part ''late.txt'' [] [])], src_calls = 1,
              pr_r = False, pr_next = None\<rparr>"
  let ?ops = "[Pull, PushBack (sample_part ''a'' [] []), Pull, Pull]"
  have pull: "peekReader_NextPart ?w = (Inl EOF, ?w1)"
    by (simp add: peekReader_NextPart_def source_NextPart_def sample_world_def)
  have run: "run_ops ?ops ?w1 = ?w1"
    by (simp add: peekReader_NextPart_def peekReader_put_def)
  from peekReader_exhausted_forever [OF pull, of ?ops] run pull show ?thesis
    by simp
qed

subsection \<open>The part classifier\<close>

lemma fileName_Part:
  "fileName f = (case Part f of None \<Rightarrow> [] | Some p \<Rightarrow> partName p)"
  by (simp add: fileName_def partName_def split: option.splits)

lemma content_types_distinct:
  "applicationSymlink \<noteq> []" "applicationFile \<noteq> []" "applicationSymlink \<noteq> applicationFile"
  "[] \<noteq> applicationSymlink" "[] \<noteq> applicationFile" "applicationFile \<noteq> applicationSymlink"
  by (simp_all add: applicationSymlink_def applicationFile_def)

lemma newFileFromPart_unfold:
  "newFileFromPart pm parent part rd =
     (if declaredDir part \<noteq> cleanDir parent then
        (if HasPrefix (declaredDir part) (cleanDir parent)
         then ([], None, Some ErrPartInChildTree)
         else ([], None, Some ErrPartOutsideParent))
      else if Header_Get part contentTypeHeader = applicationSymlink then
        (case ReadAll part of
           (out, Some e) \<Rightarrow> ([], None, Some e)
         | (out, None) \<Rightarrow> (baseName part, Some (Symlink out), None))
      else if Header_Get part contentTypeHeader = [] \<or>
              Header_Get part contentTypeHeader = applicationFile then
        (baseName part, Some (ReaderFile part (Header_Get part ''abspath'')), None)
      else
        (case pm (Header_Get part contentTypeHeader) of
           (mt, Some m) \<Rightarrow> ([], None, Some (MediaTypeError m))
         | (mt, None) \<Rightarrow>
             if \<not> isDirectory mt then
               (baseName part, Some (ReaderFile part (Header_Get part ''abspath'')), None)
             else (baseName part,
                   Some (Directory \<lparr>Part = Some part, Reader = rd, Mediatype = mt\<rparr>), None)))"
proof -
  obtain d b where sp: "path_Split (partName part) = (d, b)"
    by (cases "path_Split (partName part)")
  have dd: "declaredDir part = cleanDir d" and bn: "baseName part = b"
    by (simp_all add: declaredDir_def baseName_def sp)
  have cd: "\<And>x. (if path_Clean x = ''.'' then [] else path_Clean x) = cleanDir x"
    by (simp add: cleanDir_def)
  show ?thesis
    unfolding newFileFromPart_def dd bn
    by (simp only: Let_def fileName_Part sp cd multipartFile.simps option.case prod.case
        multipartFile.update_convs) 
qed

lemma ReadAll_cases:
  "ReadAll p = (Body p, case BodyErr p of None \<Rightarrow> None | Some m \<Rightarrow> Some (ReadError m))"
  by (simp add: ReadAll_def split: option.splits)

lemma newFileFromPart_not_child:
  "declaredDir part \<noteq> cleanDir parent \<Longrightarrow>
   newFileFromPart pm parent part rd =
     ([], None, Some (if HasPrefix (declaredDir part) (cleanDir parent)
                      then ErrPartInChildTree else ErrPartOutsideParent))"
  by (simp add: newFileFromPart_unfold)

lemma newFileFromPart_direct:
  "declaredDir part = cleanDir parent \<Longrightarrow>
   newFileFromPart pm parent part rd =
     (if Header_Get part contentTypeHeader = applicationSymlink then
        (case BodyErr part of
           Some m \<Rightarrow> ([], None, Some (ReadError m))
         | None \<Rightarrow> (baseName part, Some (Symlink (Body part)), None))
      else if Header_Get part contentTypeHeader = [] \<or>
              Header_Get part contentTypeHeader = applicationFile then
        (baseName part, Some (ReaderFile part (Header_Get part ''abspath'')), None)
      else
        (case snd (pm (Header_Get part contentTypeHeader)) of
           Some m \<Rightarrow> ([], None, Some (MediaTypeError m))
         | None \<Rightarrow>
             if \<not> isDirectory (fst (pm (Header_Get part contentTypeHeader))) then
               (baseName part, Some (ReaderFile part (Header_Get part ''abspath'')), None)
             else (baseName part,
                   Some (Directory \<lparr>Part = Some part, Reader = rd,
                           Mediatype = fst (pm (Header_Get part contentTypeHeader))\<rparr>), None)))"
  by (cases "pm (Header_Get part contentTypeHeader)")
     (simp add: newFileFromPart_unfold ReadAll_cases split: option.splits)



text \<open>
  C6.  For a direct child: with Content-Type \<^verbatim>\<open>application/symlink\<close> the classifier reads
  the whole body; when the read succeeds it returns a symlink whose target is exactly the
  body, and when the read fails it returns the read error and no node.  With an empty or
  missing Content-Type, or \<^verbatim>\<open>application/octet-stream\<close>, it returns a file node that
  holds the part itself (the body is not read) and the value of the \<^verbatim>\<open>abspath\<close> header,
  and no error.
\<close>

theorem newFileFromPart_leaf:
  assumes "declaredDir part = cleanDir parent"
  shows "(Header_Get part contentTypeHeader = applicationSymlink \<longrightarrow>
            newFileFromPart pm parent part rd =
              (case ReadAll part of
                 (out, None) \<Rightarrow> (baseName part, Some (Symlink out), None)
               | (out, Some e) \<Rightarrow> ([], None, Some e)) \<and>
            (BodyErr part = None \<longrightarrow>
               newFileFromPart pm parent part rd =
                 (baseName part, Some (Symlink (Body part)), None)) \<and>
            (\<forall>m. BodyErr part = Some m \<longrightarrow>
               newFileFromPart pm parent part rd = ([], None, Some (ReadError m)))) \<and>
         (Header_Get part contentTypeHeader = [] \<or>
          Header_Get part contentTypeHeader = applicationFile \<longrightarrow>
            newFileFromPart pm parent part rd =
              (baseName part, Some (ReaderFile part (Header_Get part ''abspath'')), None))"
  using assms
  by (simp add: newFileFromPart_direct ReadAll_cases content_types_distinct
      split: option.splits)

theorem newFileFromPart_leaf_witness:
  "newFileFromPart sample_ParseMediaType []
     (sample_part ''link'' applicationSymlink ''../target'') (Some PeekReader) =
     (''link'', Some (Symlink ''../target''), None) \<and>
   newFileFromPart sample_ParseMediaType []
     \<lparr>FileName = ''link'', Header = [(contentTypeHeader, applicationSymlink)],
      Body = ''../t'', BodyErr = Some ''unexpected EOF''\<rparr> (Some PeekReader) =
     ([], None, Some (ReadError ''unexpected EOF'')) \<and>
   newFileFromPart sample_ParseMediaType []
     \<lparr>FileName = ''b.txt'', Header = [(''abspath'', ''/home/b.txt'')],
      Body = ''data'', BodyErr = None\<rparr> (Some PeekReader) =
     (''b.txt'',
      Some (ReaderFile \<lparr>FileName = ''b.txt'', Header = [(''abspath'', ''/home/b.txt'')],
                        Body = ''data'', BodyErr = None\<rparr> ''/home/b.txt''), None) \<and>
   newFileFromPart sample_ParseMediaType ''a''
     (sample_part ''a%2Fx.txt'' applicationFile ''data'') (Some PeekReader) =
     (''x.txt'', Some (ReaderFile (sample_part ''a%2Fx.txt'' applicationFile ''data'') []), None)"
proof -
  let ?l = "sample_part ''link'' applicationSymlink ''../target''"
  let ?e = "\<lparr>FileName = ''link'', Header = [(contentTypeHeader, applicationSymlink)],
      Body = ''../t'', BodyErr = Some ''unexpected EOF''\<rparr>"
  let ?b = "\<lparr>FileName = ''b.txt'', Header = [(''abspath'', ''/home/b.txt'')],
      Body = ''data'', BodyErr = None\<rparr>"
  let ?x = "sample_part ''a%2Fx.txt'' applicationFile ''data''"
  have dl: "declaredDir ?l = cleanDir []" by code_simp
  have de: "declaredDir ?e = cleanDir []" by code_simp
  have db: "declaredDir ?b = cleanDir []" by code_simp
  have dx: "declaredDir ?x = cleanDir ''a''" by code_simp
  have bl: "baseName ?l = ''link''" by code_simp
  have be: "baseName ?e = ''link''" by code_simp
  have bb: "baseName ?b = ''b.txt''" by code_simp
  have bx: "baseName ?x = ''x.txt''" by code_simp
  have sb: "BodyErr ?l = None" "Body ?l = ''../target''"
    by (simp_all add: sample_part_def)
  have hl: "Header_Get ?l contentTypeHeader = applicationSymlink"
    by (simp add: Header_Get_def sample_part_def)
  have he: "Header_Get ?e contentTypeHeader = applicationSymlink"
    by (simp add: Header_Get_def)
  have hb: "Header_Get ?b contentTypeHeader = []" "Header_Get ?b ''abspath'' = ''/home/b.txt''"
    by (simp_all add: Header_Get_def contentTypeHeader_def)
  have hx: "Header_Get ?x contentTypeHeader = applicationFile" "Header_Get ?x ''abspath'' = []"
    by (simp_all add: Header_Get_def sample_part_def contentTypeHeader_def)
  have "newFileFromPart sample_ParseMediaType [] ?l (Some PeekReader) =
          (''link'', Some (Symlink ''../target''), None)"
    using newFileFromPart_leaf [OF dl, of sample_ParseMediaType "Some PeekReader"] hl bl sb
    by (simp add: ReadAll_cases)
  moreover have "newFileFromPart sample_ParseMediaType [] ?e (Some PeekReader) =
          ([], None, Some (ReadError ''unexpected EOF''))"
    using newFileFromPart_leaf [OF de, of sample_ParseMediaType "Some PeekReader"] he
    by (simp add: ReadAll_cases)
  moreover have "newFileFromPart sample_ParseMediaType [] ?b (Some PeekReader) =
          (''b.txt'', Some (ReaderFile ?b ''/home/b.txt''), None)"
    using newFileFromPart_leaf [OF db, of sample_ParseMediaType "Some PeekReader"] hb bb
    by simp
  moreover have "newFileFromPart sample_ParseMediaType ''a'' ?x (Some PeekReader) =
          (''x.txt'', Some (ReaderFile ?x []), None)"
    using newFileFromPart_leaf [OF dx, of sample_ParseMediaType "Some PeekReader"] hx bx
    by simp
  ultimately show ?thesis by simp
qed

text \<open>
  C7.  For a direct child whose Content-Type is neither empty nor
  \<^verbatim>\<open>application/octet-stream\<close> nor \<^verbatim>\<open>application/symlink\<close>: when the media type parser
  fails, the classifier returns that error and no node; when the parsed type is
  \<^verbatim>\<open>multipart/form-data\<close> or \<^verbatim>\<open>application/x-directory\<close>, it returns a directory node
  bound to the part and to the reader it was given, with the parsed media type; for every
  other parsed type it returns the same file node as in the octet-stream case.
\<close>

theorem newFileFromPart_other_type:
  assumes "declaredDir part = cleanDir parent"
    and "Header_Get part contentTypeHeader \<noteq> []"
    and "Header_Get part contentTypeHeader \<noteq> applicationFile"
    and "Header_Get part contentTypeHeader \<noteq> applicationSymlink"
  shows "(\<forall>m. snd (pm (Header_Get part contentTypeHeader)) = Some m \<longrightarrow>
            newFileFromPart pm parent part rd = ([], None, Some (MediaTypeError m))) \<and>
         (snd (pm (Header_Get part contentTypeHeader)) = None \<and>
          fst (pm (Header_Get part contentTypeHeader))
            \<in> {''multipart/form-data'', ''application/x-directory''} \<longrightarrow>
            newFileFromPart pm parent part rd =
              (baseName part,
               Some (Directory \<lparr>Part = Some part, Reader = rd,
                       Mediatype = fst (pm (Header_Get part contentTypeHeader))\<rparr>), None)) \<and>
         (snd (pm (Header_Get part contentTypeHeader)) = None \<and>
          fst (pm (Header_Get part contentTypeHeader))
            \<notin> {''multipart/form-data'', ''application/x-directory''} \<longrightarrow>
            newFileFromPart pm parent part rd =
              (baseName part, Some (ReaderFile part (Header_Get part ''abspath'')), None))"
  using assms
  by (simp add: newFileFromPart_direct isDirectory_def multipartFormdataType_def
      applicationDirectory_def)

theorem newFileFromPart_other_type_witness:
  "newFileFromPart sample_ParseMediaType [] (sample_part ''bad'' ''text/'' []) (Some PeekReader) =
     ([], None, Some (MediaTypeError ''mime: expected token after slash'')) \<and>
   newFileFromPart sample_ParseMediaType []
     (sample_part ''a'' ''multipart/form-data; boundary=x'' []) (Some PeekReader) =
     (''a'', Some (Directory \<lparr>Part = Some (sample_part ''a'' ''multipart/form-data; boundary=x'' []),
                     Reader = Some PeekReader, Mediatype = ''multipart/form-data''\<rparr>), None) \<and>
   newFileFromPart sample_ParseMediaType ''a''
     (sample_part ''a%2Fd'' ''application/x-directory'' []) (Some PeekReader) =
     (''d'', Some (Directory \<lparr>Part = Some (sample_part ''a%2Fd'' ''application/x-directory'' []),
                     Reader = Some PeekReader, Mediatype = ''application/x-directory''\<rparr>), None) \<and>
   newFileFromPart sample_ParseMediaType []
     (sample_part ''t.txt'' ''text/plain'' ''hi'') (Some PeekReader) =
     (''t.txt'', Some (ReaderFile (sample_part ''t.txt'' ''text/plain'' ''hi'') []), None) \<and>
   newFileFromPart sample_ParseMediaType []
     (sample_part ''m'' ''multipart/mixed'' []) (Some PeekReader) =
     (''m'', Some (ReaderFile (sample_part ''m'' ''multipart/mixed'' []) []), None)"
proof -
  let ?bad = "sample_part ''bad'' ''text/'' []"
  let ?a = "sample_part ''a'' ''multipart/form-data; boundary=x'' []"
  let ?d = "sample_part ''a%2Fd'' ''application/x-directory'' []"
  let ?t = "sample_part ''t.txt'' ''text/plain'' ''hi''"
  let ?m = "sample_part ''m'' ''multipart/mixed'' []"
  have dirs: "declaredDir ?bad = cleanDir []" "declaredDir ?a = cleanDir []"
    "declaredDir ?d = cleanDir ''a''" "declaredDir ?t = cleanDir []" "declaredDir ?m = cleanDir []"
    by code_simp+
  have bases: "baseName ?bad = ''bad''" "baseName ?a = ''a''" "baseName ?d = ''d''"
    "baseName ?t = ''t.txt''" "baseName ?m = ''m''"
    by code_simp+
  have hdr: "\<And>n c b. Header_Get (sample_part n c b) contentTypeHeader = c"
    "\<And>n c b. Header_Get (sample_part n c b) ''abspath'' = []"
    by (simp_all add: Header_Get_def sample_part_def contentTypeHeader_def)
  have pm: "sample_ParseMediaType ''text/'' = ([], Some ''mime: expected token after slash'')"
    "sample_ParseMediaType ''multipart/form-data; boundary=x'' = (''multipart/form-data'', None)"
    "sample_ParseMediaType ''application/x-directory'' = (''application/x-directory'', None)"
    "sample_ParseMediaType ''text/plain'' = (''text/plain'', None)"
    "sample_ParseMediaType ''multipart/mixed'' = (''multipart/mixed'', None)"
    by code_simp+
  have "newFileFromPart sample_ParseMediaType [] ?bad (Some PeekReader) =
     ([], None, Some (MediaTypeError ''mime: expected token after slash''))"
    using newFileFromPart_other_type [OF dirs(1), of sample_ParseMediaType "Some PeekReader"]
    by (simp add: hdr pm applicationFile_def applicationSymlink_def)
  moreover have "newFileFromPart sample_ParseMediaType [] ?a (Some PeekReader) =
     (''a'', Some (Directory \<lparr>Part = Some ?a, Reader = Some PeekReader,
                     Mediatype = ''multipart/form-data''\<rparr>), None)"
    using newFileFromPart_other_type [OF dirs(2), of sample_ParseMediaType "Some PeekReader"]
    by (simp add: hdr pm bases applicationFile_def applicationSymlink_def)
  moreover have "newFileFromPart sample_ParseMediaType ''a'' ?d (Some PeekReader) =
     (''d'', Some (Directory \<lparr>Part = Some ?d, Reader = Some PeekReader,
                     Mediatype = ''application/x-directory''\<rparr>), None)"
    using newFileFromPart_other_type [OF dirs(3), of sample_ParseMediaType "Some PeekReader"]
    by (simp add: hdr pm bases applicationFile_def applicationSymlink_def)
  moreover have "newFileFromPart sample_ParseMediaType [] ?t (Some PeekReader) =
     (''t.txt'', Some (ReaderFile ?t []), None)"
    using newFileFromPart_other_type [OF dirs(4), of sample_ParseMediaType "Some PeekReader"]
    by (simp add: hdr pm bases applicationFile_def applicationSymlink_def)
  moreover have "newFileFromPart sample_ParseMediaType [] ?m (Some PeekReader) =
     (''m'', Some (ReaderFile ?m []), None)"
    using newFileFromPart_other_type [OF dirs(5), of sample_ParseMediaType "Some PeekReader"]
    by (simp add: hdr pm bases applicationFile_def applicationSymlink_def)
  ultimately show ?thesis by simp
qed

subsection \<open>The iterator\<close>

lemma Next_loop_EOF:
  "Reader_NextPart rd w = (Inl EOF, w') \<Longrightarrow> Next_loop pm it rd w = (False, it, w')"
  by (subst Next_loop.simps) simp

lemma Next_loop_fail:
  "Reader_NextPart rd w = (Inl e, w') \<Longrightarrow> e \<noteq> EOF \<Longrightarrow>
   Next_loop pm it rd w = (False, it\<lparr>it_err := Some e\<rparr>, w')"
  by (subst Next_loop.simps) simp

lemma Next_loop_outside:
  "Reader_NextPart rd w = (Inr p, w') \<Longrightarrow>
   snd (snd (newFileFromPart pm (fileName (it_f it)) p (Some rd))) = Some ErrPartOutsideParent \<Longrightarrow>
   Next_loop pm it rd w = Next_undo it rd p w'"
  by (subst Next_loop.simps) (auto split: prod.splits)

lemma Next_loop_in_child:
  "Reader_NextPart rd w = (Inr p, w') \<Longrightarrow>
   snd (snd (newFileFromPart pm (fileName (it_f it)) p (Some rd))) = Some ErrPartInChildTree \<Longrightarrow>
   Next_loop pm it rd w = Next_loop pm it rd w'"
  by (subst Next_loop.simps) (auto split: prod.splits)

lemma Next_loop_entry:
  "Reader_NextPart rd w = (Inr p, w') \<Longrightarrow>
   newFileFromPart pm (fileName (it_f it)) p (Some rd) = (name, cf, e) \<Longrightarrow>
   e \<noteq> Some ErrPartOutsideParent \<Longrightarrow> e \<noteq> Some ErrPartInChildTree \<Longrightarrow>
   Next_loop pm it rd w = (e = None, it\<lparr>it_curFile := cf, it_curName := name, it_err := e\<rparr>, w')"
  by (subst Next_loop.simps) simp

lemma Next_loop_skip:
  "skip_parts rd ps w = Some w' \<Longrightarrow>
   \<forall>p\<in>set ps. snd (snd (newFileFromPart pm (fileName (it_f it)) p (Some rd))) =
                 Some ErrPartInChildTree \<Longrightarrow>
   Next_loop pm it rd w = Next_loop pm it rd w'"
proof (induction ps arbitrary: w)
  case Nil
  then show ?case by simp
next
  case (Cons p ps)
  from Cons.prems(1) obtain w1 where
    pull: "Reader_NextPart rd w = (Inr p, w1)" and rest: "skip_parts rd ps w1 = Some w'"
    by (auto split: prod.splits sum.splits if_splits)
  have "Next_loop pm it rd w = Next_loop pm it rd w1"
    using pull Cons.prems(2) by (simp add: Next_loop_in_child)
  also have "\<dots> = Next_loop pm it rd w'"
    using rest Cons.prems(2) by (simp add: Cons.IH)
  finally show ?case .
qed

text \<open>
  C4.  A part classified in-child-tree is discarded: the advance neither yields it nor
  stops, it pulls the next part.  So when the reader delivers the parts \<open>ps\<close>, all of
  them in-child-tree for the iterator's directory, the advance gives exactly what it gives
  from the state after those pulls: the first part that is not in-child-tree decides.  In
  particular, for the parts \<^verbatim>\<open>a/x.txt\<close>, \<^verbatim>\<open>a/y.txt\<close>, \<^verbatim>\<open>b.txt\<close> (file names
  URL-escaped, as \<^verbatim>\<open>fileName\<close> expects) and the root directory, with no directory part
  \<^verbatim>\<open>a\<close>, the first advance yields \<^verbatim>\<open>b.txt\<close> after three pulls and the second one
  returns the end marker.
\<close>

theorem Next_discards_in_child_tree:
  "(Reader (it_f it) = Some rd \<and> skip_parts rd ps w = Some w' \<and>
    (\<forall>p\<in>set ps. snd (snd (newFileFromPart pm (fileName (it_f it)) p (Some rd))) =
                  Some ErrPartInChildTree)
    \<longrightarrow> Next pm it w = Next pm it w') \<and>
   Next sample_ParseMediaType (Entries sample_root)
      (sample_world [Got sample_ax, Got sample_ay, Got sample_b] None) =
      (True,
       \<lparr>it_f = sample_root, it_curFile = Some (ReaderFile sample_b []),
        it_curName = ''b.txt'', it_err = None\<rparr>,
       \<lparr>src_items = [], src_calls = 3, pr_r = True, pr_next = None\<rparr>) \<and>
   Next sample_ParseMediaType
       \<lparr>it_f = sample_root, it_curFile = Some (ReaderFile sample_b []),
        it_curName = ''b.txt'', it_err = None\<rparr>
       \<lparr>src_items = [], src_calls = 3, pr_r = True, pr_next = None\<rparr> =
      (False,
       \<lparr>it_f = sample_root, it_curFile = Some (ReaderFile sample_b []),
        it_curName = ''b.txt'', it_err = None\<rparr>,
       \<lparr>src_items = [], src_calls = 4, pr_r = False, pr_next = None\<rparr>)"
proof (intro conjI impI)
  assume "Reader (it_f it) = Some rd \<and> skip_parts rd ps w = Some w' \<and>
    (\<forall>p\<in>set ps. snd (snd (newFileFromPart pm (fileName (it_f it)) p (Some rd))) =
                  Some ErrPartInChildTree)"
  then show "Next pm it w = Next pm it w'"
    using Next_loop_skip [of rd ps w w' pm it] by (simp add: Next_def)
next
  show "Next sample_ParseMediaType (Entries sample_root)
      (sample_world [Got sample_ax, Got sample_ay, Got sample_b] None) =
      (True,
       \<lparr>it_f = sample_root, it_curFile = Some (ReaderFile sample_b []),
        it_curName = ''b.txt'', it_err = None\<rparr>,
       \<lparr>src_items = [], src_calls = 3, pr_r = True, pr_next = None\<rparr>)"
    by code_simp
next
  show "Next sample_ParseMediaType
       \<lparr>it_f = sample_root, it_curFile = Some (ReaderFile sample_b []),
        it_curName = ''b.txt'', it_err = None\<rparr>
       \<lparr>src_items = [], src_calls = 3, pr_r = True, pr_next = None\<rparr> =
      (False,
       \<lparr>it_f = sample_root, it_curFile = Some (ReaderFile sample_b []),
        it_curName = ''b.txt'', it_err = None\<rparr>,
       \<lparr>src_items = [], src_calls = 4, pr_r = False, pr_next = None\<rparr>)"
    by code_simp
qed

theorem Next_discards_in_child_tree_witness:
  "skip_parts PeekReader [sample_ax, sample_ay]
     (sample_world [Got sample_ax, Got sample_ay, Got sample_b] None) =
     Some \<lparr>src_items = [Got sample_b], src_calls = 2, pr_r = True, pr_next = None\<rparr> \<and>
   snd (snd (newFileFromPart sample_ParseMediaType [] sample_ax (Some PeekReader))) =
     Some ErrPartInChildTree \<and>
   snd (snd (newFileFromPart sample_ParseMediaType [] sample_ay (Some PeekReader))) =
     Some ErrPartInChildTree \<and>
   Next sample_ParseMediaType (Entries sample_root)
     (sample_world [Got sample_ax, Got sample_ay, Got sample_b] None) =
   Next sample_ParseMediaType (Entries sample_root)
     \<lparr>src_items = [Got sample_b], src_calls = 2, pr_r = True, pr_next = None\<rparr>"
proof -
  have rd: "Reader (it_f (Entries sample_root)) = Some PeekReader"
    by (simp add: Entries_def sample_root_def)
  have fn: "fileName (it_f (Entries sample_root)) = []"
    by (simp add: Entries_def sample_root_def fileName_def)
  have sk: "skip_parts PeekReader [sample_ax, sample_ay]
     (sample_world [Got sample_ax, Got sample_ay, Got sample_b] None) =
     Some \<lparr>src_items = [Got sample_b], src_calls = 2, pr_r = True, pr_next = None\<rparr>"
    by code_simp
  have cx: "snd (snd (newFileFromPart sample_ParseMediaType [] sample_ax (Some PeekReader))) =
     Some ErrPartInChildTree"
    by code_simp
  have cy: "snd (snd (newFileFromPart sample_ParseMediaType [] sample_ay (Some PeekReader))) =
     Some ErrPartInChildTree"
    by code_simp
  from Next_discards_in_child_tree [of "Entries sample_root" PeekReader
      "[sample_ax, sample_ay]"
      "sample_world [Got sample_ax, Got sample_ay, Got sample_b] None"
      "\<lparr>src_items = [Got sample_b], src_calls = 2, pr_r = True, pr_next = None\<rparr>"
      sample_ParseMediaType]
    rd fn sk cx cy
  show ?thesis by simp
qed

lemma Next_peek:
  "Reader (it_f it) = Some PeekReader \<Longrightarrow> Next pm it w = Next_loop pm it PeekReader w"
  by (simp add: Next_def)

lemma Reader_NextPart_peek [simp]: "Reader_NextPart PeekReader w = peekReader_NextPart w"
  by (simp add: Reader_NextPart_def)

lemma Next_undo_peek_empty:
  "pr_next w = None \<Longrightarrow>
   Next_undo it PeekReader p w = (False, it\<lparr>it_err := None\<rparr>, w\<lparr>pr_next := Some p\<rparr>)"
  by (simp add: Next_undo_def peekReader_put_def)

lemma Next_undo_peek_full:
  "pr_next w = Some q \<Longrightarrow>
   Next_undo it PeekReader p w =
     (False, it\<lparr>it_err := Some (ErrorsNew ''cannot put multiple parts'')\<rparr>, w)"
  by (simp add: Next_undo_def peekReader_put_def)

text \<open>
  C5.  When an iterator that reads through the lookahead buffer pulls a part classified
  outside-parent, the advance runs the pushback code: it returns the end marker, leaves
  the current entry untouched, records a nil error, and puts the part into the slot, so
  that the very next pull from the buffer (by the parent iterator) returns this part.
  When the pushback finds the slot occupied, the same code records the protocol-violation
  error instead and leaves the buffer unchanged.
\<close>

theorem Next_outside_parent_pushback:
  assumes "Reader (it_f it) = Some PeekReader"
    and "peekReader_NextPart w = (Inr p, w1)"
    and "snd (snd (newFileFromPart pm (fileName (it_f it)) p (Some PeekReader))) =
           Some ErrPartOutsideParent"
  shows "Next pm it w = Next_undo it PeekReader p w1 \<and>
         Next pm it w = (False, it\<lparr>it_err := None\<rparr>, w1\<lparr>pr_next := Some p\<rparr>) \<and>
         peekReader_NextPart (w1\<lparr>pr_next := Some p\<rparr>) = (Inr p, w1) \<and>
         (\<forall>w2 q. pr_next w2 = Some q \<longrightarrow>
            Next_undo it PeekReader p w2 =
              (False, it\<lparr>it_err := Some (ErrorsNew ''cannot put multiple parts'')\<rparr>, w2))"
proof -
  have slot: "pr_next w1 = None"
    using assms(2) by (rule peekReader_NextPart_slot_empty)
  have step: "Next pm it w = Next_undo it PeekReader p w1"
    using assms by (simp add: Next_peek Next_loop_outside)
  moreover have "Next_undo it PeekReader p w1 = (False, it\<lparr>it_err := None\<rparr>, w1\<lparr>pr_next := Some p\<rparr>)"
    using slot by (rule Next_undo_peek_empty)
  moreover have "peekReader_NextPart (w1\<lparr>pr_next := Some p\<rparr>) = (Inr p, w1)"
    using slot by (simp add: peekReader_NextPart_def)
  ultimately show ?thesis
    by (simp add: Next_undo_peek_full)
qed

theorem Next_outside_parent_pushback_witness:
  "Next sample_ParseMediaType (Entries sample_dir_a) (sample_world [Got sample_b] None) =
     (False, Entries sample_dir_a,
      \<lparr>src_items = [], src_calls = 1, pr_r = True, pr_next = Some sample_b\<rparr>) \<and>
   peekReader_NextPart \<lparr>src_items = [], src_calls = 1, pr_r = True, pr_next = Some sample_b\<rparr> =
     (Inr sample_b, \<lparr>src_items = [], src_calls = 1, pr_r = True, pr_next = None\<rparr>) \<and>
   Next_undo (Entries sample_dir_a) PeekReader sample_b (sample_world [] (Some sample_ax)) =
     (False, (Entries sample_dir_a)\<lparr>it_err := Some (ErrorsNew ''cannot put multiple parts'')\<rparr>,
      sample_world [] (Some sample_ax))"
proof -
  let ?w1 = "\<lparr>src_items = [], src_calls = 1, pr_r = True, pr_next = None\<rparr>"
  have rd: "Reader (it_f (Entries sample_dir_a)) = Some PeekReader"
    by (simp add: Entries_def sample_dir_a_def)
  have pull: "peekReader_NextPart (sample_world [Got sample_b] None) = (Inr sample_b, ?w1)"
    by (simp add: peekReader_NextPart_def source_NextPart_def sample_world_def)
  have cls: "snd (snd (newFileFromPart sample_ParseMediaType
                (fileName (it_f (Entries sample_dir_a))) sample_b (Some PeekReader))) =
             Some ErrPartOutsideParent"
    by code_simp
  have full: "pr_next (sample_world [] (Some sample_ax)) = Some sample_ax"
    by (simp add: sample_world_def)
  have e: "(Entries sample_dir_a)\<lparr>it_err := None\<rparr> = Entries sample_dir_a"
    by (simp add: Entries_def)
  note r = Next_outside_parent_pushback [OF rd pull cls]
  from r [THEN conjunct2, THEN conjunct1] have "Next sample_ParseMediaType (Entries sample_dir_a) (sample_world [Got sample_b] None) =
     (False, Entries sample_dir_a,
      \<lparr>src_items = [], src_calls = 1, pr_r = True, pr_next = Some sample_b\<rparr>)"
    by (simp only: e world.update_convs)
  moreover from r [THEN conjunct2, THEN conjunct2, THEN conjunct1] have "peekReader_NextPart
      \<lparr>src_items = [], src_calls = 1, pr_r = True, pr_next = Some sample_b\<rparr> =
     (Inr sample_b, ?w1)"
    by (simp only: world.update_convs)
  moreover from r [THEN conjunct2, THEN conjunct2, THEN conjunct2] full have "Next_undo (Entries sample_dir_a) PeekReader sample_b
      (sample_world [] (Some sample_ax)) =
     (False, (Entries sample_dir_a)\<lparr>it_err := Some (ErrorsNew ''cannot put multiple parts'')\<rparr>,
      sample_world [] (Some sample_ax))"
    by blast
  ultimately show ?thesis by simp
qed

lemma Next_loop_peek_false:
  "Next_loop pm it rd w = (False, it', w') \<Longrightarrow> rd = PeekReader \<Longrightarrow> it_err it' = None \<Longrightarrow>
   (pr_next w' = None \<and> \<not> pr_r w' \<and> it' = it) \<or>
   (\<exists>p. pr_next w' = Some p \<and>
        snd (snd (newFileFromPart pm (fileName (it_f it)) p (Some PeekReader))) =
          Some ErrPartOutsideParent \<and>
        it' = it\<lparr>it_err := None\<rparr>)"
proof (induction pm it rd w rule: Next_loop.induct)
  case (1 pm it rd w)
  obtain res w1 where pull: "Reader_NextPart rd w = (res, w1)"
    by (cases "Reader_NextPart rd w")
  then have ppull: "peekReader_NextPart w = (res, w1)"
    using "1.prems"(2) by simp
  show ?case
  proof (cases res)
    case (Inl e)
    show ?thesis
    proof (cases "e = EOF")
      case True
      with pull Inl have "Next_loop pm it rd w = (False, it, w1)"
        by (simp add: Next_loop_EOF)
      with "1.prems"(1) have "it' = it" "w' = w1" by simp_all
      moreover have "pr_next w1 = None"
        using ppull by (rule peekReader_NextPart_slot_empty)
      moreover have "\<not> pr_r w1"
        using ppull Inl True by (simp add: peekReader_NextPart_EOF_drops_source)
      ultimately show ?thesis by simp
    next
      case False
      with pull Inl have "Next_loop pm it rd w = (False, it\<lparr>it_err := Some e\<rparr>, w1)"
        by (simp add: Next_loop_fail)
      with "1.prems"(1,3) show ?thesis by auto
    qed
  next
    case (Inr p)
    obtain name cf e where cls: "newFileFromPart pm (fileName (it_f it)) p (Some rd) = (name, cf, e)"
      by (cases "newFileFromPart pm (fileName (it_f it)) p (Some rd)")
    have slot: "pr_next w1 = None"
      using ppull by (rule peekReader_NextPart_slot_empty)
    consider (out) "e = Some ErrPartOutsideParent" | (inc) "e = Some ErrPartInChildTree"
      | (ent) "e \<noteq> Some ErrPartOutsideParent" "e \<noteq> Some ErrPartInChildTree"
      by blast
    then show ?thesis
    proof cases
      case out
      with pull Inr cls have "Next_loop pm it rd w = Next_undo it rd p w1"
        by (simp add: Next_loop_outside)
      also have "\<dots> = (False, it\<lparr>it_err := None\<rparr>, w1\<lparr>pr_next := Some p\<rparr>)"
        using slot "1.prems"(2) by (simp add: Next_undo_peek_empty)
      finally have "it' = it\<lparr>it_err := None\<rparr>" "w' = w1\<lparr>pr_next := Some p\<rparr>"
        using "1.prems"(1) by simp_all
      with out cls "1.prems"(2) show ?thesis by simp
    next
      case inc
      with pull Inr cls have "Next_loop pm it rd w = Next_loop pm it rd w1"
        by (simp add: Next_loop_in_child)
      with "1.prems"(1) have "Next_loop pm it rd w1 = (False, it', w')" by simp
      with "1.IH" [OF pull [symmetric] Inr cls [symmetric] refl] inc "1.prems"(2,3)
      show ?thesis by simp
    next
      case ent
      with pull Inr cls have "Next_loop pm it rd w =
          (e = None, it\<lparr>it_curFile := cf, it_curName := name, it_err := e\<rparr>, w1)"
        by (simp add: Next_loop_entry)
      with "1.prems"(1,3) show ?thesis by auto
    qed
  qed
qed

lemma Next_peek_terminal_fixpoint:
  assumes rd: "Reader (it_f it) = Some PeekReader"
    and ret: "Next pm it w = (False, it', w')"
    and nil: "it_err it' = None"
  shows "Next pm it' w' = (False, it', w')"
proof -
  from rd ret have loop: "Next_loop pm it PeekReader w = (False, it', w')"
    by (simp add: Next_peek)
  from Next_loop_peek_false [OF loop refl nil] show ?thesis
  proof (elim disjE exE conjE)
    assume eof: "pr_next w' = None" "\<not> pr_r w'" "it' = it"
    then have "peekReader_NextPart w' = (Inl EOF, w')"
      by (simp add: peekReader_NextPart_exhausted)
    then have "Next_loop pm it' PeekReader w' = (False, it', w')"
      by (simp add: Next_loop_EOF)
    with rd eof show ?thesis by (simp add: Next_peek)
  next
    fix p
    assume pushed: "pr_next w' = Some p"
        "snd (snd (newFileFromPart pm (fileName (it_f it)) p (Some PeekReader))) =
           Some ErrPartOutsideParent"
        "it' = it\<lparr>it_err := None\<rparr>"
    have rd': "Reader (it_f it') = Some PeekReader" and fn: "it_f it' = it_f it"
      using rd pushed(3) by simp_all
    have pull: "peekReader_NextPart w' = (Inr p, w'\<lparr>pr_next := None\<rparr>)"
      using pushed(1) by (rule peekReader_NextPart_pending_part)
    have "Next_loop pm it' PeekReader w' = Next_undo it' PeekReader p (w'\<lparr>pr_next := None\<rparr>)"
      using pull pushed(2) fn by (simp add: Next_loop_outside)
    also have "\<dots> = (False, it'\<lparr>it_err := None\<rparr>, w'\<lparr>pr_next := None, pr_next := Some p\<rparr>)"
      by (simp add: Next_undo_peek_empty)
    also have "\<dots> = (False, it', w')"
      using nil pushed(1) by simp
    finally show ?thesis using rd' by (simp add: Next_peek)
  qed
qed

text \<open>
  C3 as stated fails.  Errored is not stable: the first part has the Content-Type
  \<^verbatim>\<open>text/\<close>, which the media type parser refuses, so the advance returns false and
  \<^verbatim>\<open>Err\<close> reports the parse error; the next advance does not look at the stored error,
  pulls \<^verbatim>\<open>b.txt\<close>, yields it, and overwrites the stored error with nil.  Exhausted is not
  stable either once another iterator has moved the buffer: for the parts \<^verbatim>\<open>a\<close> (a
  directory), \<^verbatim>\<open>a/x.txt\<close>, \<^verbatim>\<open>b.txt\<close>, \<^verbatim>\<open>a/z.txt\<close> the iterator of \<^verbatim>\<open>a\<close> yields
  \<^verbatim>\<open>x.txt\<close> and then returns the end marker with a nil error (pushing \<^verbatim>\<open>b.txt\<close> back);
  after the root iterator has taken \<^verbatim>\<open>b.txt\<close>, a further advance of the iterator of
  \<^verbatim>\<open>a\<close> yields \<^verbatim>\<open>z.txt\<close>.
\<close>

theorem Next_terminal_not_stable_counterexample:
  "Next sample_ParseMediaType (Entries sample_root)
     (sample_world [Got sample_bad, Got sample_b] None) =
     (False,
      \<lparr>it_f = sample_root, it_curFile = None, it_curName = [],
       it_err = Some (MediaTypeError ''mime: expected token after slash'')\<rparr>,
      \<lparr>src_items = [Got sample_b], src_calls = 1, pr_r = True, pr_next = None\<rparr>) \<and>
   Err \<lparr>it_f = sample_root, it_curFile = None, it_curName = [],
        it_err = Some (MediaTypeError ''mime: expected token after slash'')\<rparr> =
     Some (MediaTypeError ''mime: expected token after slash'') \<and>
   Next sample_ParseMediaType
     \<lparr>it_f = sample_root, it_curFile = None, it_curName = [],
      it_err = Some (MediaTypeError ''mime: expected token after slash'')\<rparr>
     \<lparr>src_items = [Got sample_b], src_calls = 1, pr_r = True, pr_next = None\<rparr> =
     (True,
      \<lparr>it_f = sample_root, it_curFile = Some (ReaderFile sample_b []),
       it_curName = ''b.txt'', it_err = None\<rparr>,
      \<lparr>src_items = [], src_calls = 2, pr_r = True, pr_next = None\<rparr>) \<and>
   Err \<lparr>it_f = sample_root, it_curFile = Some (ReaderFile sample_b []),
        it_curName = ''b.txt'', it_err = None\<rparr> = None \<and>
   Next sample_ParseMediaType (Entries sample_root)
     (sample_world [Got sample_a, Got sample_ax, Got sample_b, Got sample_az] None) =
     (True,
      \<lparr>it_f = sample_root, it_curFile = Some (Directory sample_dir_a),
       it_curName = ''a'', it_err = None\<rparr>,
      \<lparr>src_items = [Got sample_ax, Got sample_b, Got sample_az], src_calls = 1,
       pr_r = True, pr_next = None\<rparr>) \<and>
   Next sample_ParseMediaType (Entries sample_dir_a)
     \<lparr>src_items = [Got sample_ax, Got sample_b, Got sample_az], src_calls = 1,
      pr_r = True, pr_next = None\<rparr> =
     (True,
      \<lparr>it_f = sample_dir_a, it_curFile = Some (ReaderFile sample_ax []),
       it_curName = ''x.txt'', it_err = None\<rparr>,
      \<lparr>src_items = [Got sample_b, Got sample_az], src_calls = 2, pr_r = True,
       pr_next = None\<rparr>) \<and>
   Next sample_ParseMediaType
     \<lparr>it_f = sample_dir_a, it_curFile = Some (ReaderFile sample_ax []),
      it_curName = ''x.txt'', it_err = None\<rparr>
     \<lparr>src_items = [Got sample_b, Got sample_az], src_calls = 2, pr_r = True,
      pr_next = None\<rparr> =
     (False,
      \<lparr>it_f = sample_dir_a, it_curFile = Some (ReaderFile sample_ax []),
       it_curName = ''x.txt'', it_err = None\<rparr>,
      \<lparr>src_items = [Got sample_az], src_calls = 3, pr_r = True,
       pr_next = Some sample_b\<rparr>) \<and>
   Next sample_ParseMediaType
     \<lparr>it_f = sample_root, it_curFile = Some (Directory sample_dir_a),
      it_curName = ''a'', it_err = None\<rparr>
     \<lparr>src_items = [Got sample_az], src_calls = 3, pr_r = True, pr_next = Some sample_b\<rparr> =
     (True,
      \<lparr>it_f = sample_root, it_curFile = Some (ReaderFile sample_b []),
       it_curName = ''b.txt'', it_err = None\<rparr>,
      \<lparr>src_items = [Got sample_az], src_calls = 3, pr_r = True, pr_next = None\<rparr>) \<and>
   Next sample_ParseMediaType
     \<lparr>it_f = sample_dir_a, it_curFile = Some (ReaderFile sample_ax []),
      it_curName = ''x.txt'', it_err = None\<rparr>
     \<lparr>src_items = [Got sample_az], src_calls = 3, pr_r = True, pr_next = None\<rparr> =
     (True,
      \<lparr>it_f = sample_dir_a, it_curFile = Some (ReaderFile sample_az []),
       it_curName = ''z.txt'', it_err = None\<rparr>,
      \<lparr>src_items = [], src_calls = 4, pr_r = True, pr_next = None\<rparr>)"
  by code_simp

lemma Next_terminal_fixpoint:
  assumes rd: "Reader (it_f it) \<noteq> Some OtherReader"
    and ret: "Next pm it w = (False, it', w')"
    and nil: "it_err it' = None"
  shows "Next pm it' w' = (False, it', w') \<and> Reader (it_f it') \<noteq> Some OtherReader"
proof (cases "Reader (it_f it)")
  case None
  with ret show ?thesis by (simp add: Next_def)
next
  case (Some r)
  with rd have peek: "Reader (it_f it) = Some PeekReader"
    by (cases r) simp_all
  from peek ret have loop: "Next_loop pm it PeekReader w = (False, it', w')"
    by (simp add: Next_peek)
  have "it_f it' = it_f it"
    using Next_loop_peek_false [OF loop refl nil] by auto
  with Next_peek_terminal_fixpoint [OF peek ret nil] rd show ?thesis by simp
qed

lemma Next_loop_it_f:
  "Next_loop pm it rd w = (ok, it', w') \<Longrightarrow> it_f it' = it_f it"
proof (induction pm it rd w rule: Next_loop.induct)
  case (1 pm it rd w)
  obtain res w1 where pull: "Reader_NextPart rd w = (res, w1)"
    by (cases "Reader_NextPart rd w")
  show ?case
  proof (cases res)
    case (Inl e)
    with pull "1.prems" show ?thesis
      by (cases "e = EOF") (auto simp: Next_loop_EOF Next_loop_fail)
  next
    case (Inr p)
    obtain name cf e where cls: "newFileFromPart pm (fileName (it_f it)) p (Some rd) = (name, cf, e)"
      by (cases "newFileFromPart pm (fileName (it_f it)) p (Some rd)")
    consider (out) "e = Some ErrPartOutsideParent" | (inc) "e = Some ErrPartInChildTree"
      | (ent) "e \<noteq> Some ErrPartOutsideParent" "e \<noteq> Some ErrPartInChildTree"
      by blast
    then show ?thesis
    proof cases
      case out
      with pull Inr cls have "Next_loop pm it rd w = Next_undo it rd p w1"
        by (simp add: Next_loop_outside)
      with "1.prems" show ?thesis
        by (auto simp: Next_undo_def split: part_reader.splits prod.splits)
    next
      case inc
      with pull Inr cls have "Next_loop pm it rd w = Next_loop pm it rd w1"
        by (simp add: Next_loop_in_child)
      with "1.prems" have "Next_loop pm it rd w1 = (ok, it', w')" by simp
      with "1.IH" [OF pull [symmetric] Inr cls [symmetric] refl] inc
      show ?thesis by simp
    next
      case ent
      with pull Inr cls have "Next_loop pm it rd w =
          (e = None, it\<lparr>it_curFile := cf, it_curName := name, it_err := e\<rparr>, w1)"
        by (simp add: Next_loop_entry)
      with "1.prems" show ?thesis by auto
    qed
  qed
qed

lemma Next_it_f: "Next pm it w = (ok, it', w') \<Longrightarrow> it_f it' = it_f it"
  by (auto simp: Next_def split: option.splits dest: Next_loop_it_f)

lemma advances_fixpoint:
  "Next pm it w = (False, it, w) \<Longrightarrow> advances pm n it w = (False, it, w)"
  by (induction n) simp_all

lemma advances_settle:
  "Next pm it w = (False, it, w1) \<Longrightarrow> Next pm it w1 = (False, it, w1) \<Longrightarrow>
   advances pm n it w = (False, it, w1)"
  by (cases n) (simp_all add: advances_fixpoint)

lemma Next_peek_discard_to_end:
  assumes rd: "Reader (it_f it) = Some PeekReader"
    and sk: "skip_parts PeekReader ps w = Some w2"
    and inc: "\<forall>p\<in>set ps. snd (snd (newFileFromPart pm (fileName (it_f it)) p (Some PeekReader))) =
                Some ErrPartInChildTree"
    and eof: "peekReader_NextPart w2 = (Inl EOF, w3)"
  shows "Next pm it w = (False, it, w3)" and "Next pm it w3 = (False, it, w3)"
proof -
  have "Next_loop pm it PeekReader w = Next_loop pm it PeekReader w2"
    using sk inc by (rule Next_loop_skip)
  also have "\<dots> = (False, it, w3)"
    using eof by (simp add: Next_loop_EOF)
  finally show "Next pm it w = (False, it, w3)"
    using rd by (simp add: Next_peek)
  have "\<not> pr_r w3" using eof by (rule peekReader_NextPart_EOF_drops_source)
  moreover have "pr_next w3 = None" using eof by (rule peekReader_NextPart_slot_empty)
  ultimately have "peekReader_NextPart w3 = (Inl EOF, w3)"
    by (simp add: peekReader_NextPart_exhausted)
  then show "Next pm it w3 = (False, it, w3)"
    using rd by (simp add: Next_peek Next_loop_EOF)
qed

text \<open>
  C3, amended.  Take an iterator whose reader is nil or the lookahead buffer and whose
  advance has returned false, and let nothing else touch the buffer afterwards.  If the
  advance left a nil error (Exhausted: the buffer reported end-of-input, or an
  outside-parent part was pushed back), every further advance returns the same end marker
  and leaves the iterator and the buffer exactly as they were.  If the buffer has nothing
  left to deliver before end-of-input but parts that are in-child-tree for this directory
  (in particular when it is at end-of-input), every further advance returns false and
  leaves the iterator unchanged, stored error included: an Errored iterator then keeps
  reporting the same error.
\<close>

theorem Next_terminal_stable:
  assumes "Reader (it_f it) \<noteq> Some OtherReader"
    and "Next pm it w = (False, it', w')"
  shows "(Err it' = None \<longrightarrow> advances pm n it' w' = (False, it', w')) \<and>
         (\<forall>ps w2 w3.
            skip_parts PeekReader ps w' = Some w2 \<and>
            (\<forall>p\<in>set ps. snd (snd (newFileFromPart pm (fileName (it_f it')) p (Some PeekReader))) =
                           Some ErrPartInChildTree) \<and>
            peekReader_NextPart w2 = (Inl EOF, w3) \<longrightarrow>
            advances pm n it' w' =
              (False, it', if Reader (it_f it') = None then w' else w3))"
proof (intro conjI impI allI)
  assume "Err it' = None"
  then have "Next pm it' w' = (False, it', w')"
    using Next_terminal_fixpoint [OF assms] by (simp add: Err_def)
  then show "advances pm n it' w' = (False, it', w')"
    by (rule advances_fixpoint)
next
  fix ps w2 w3
  assume a: "skip_parts PeekReader ps w' = Some w2 \<and>
            (\<forall>p\<in>set ps. snd (snd (newFileFromPart pm (fileName (it_f it')) p (Some PeekReader))) =
                           Some ErrPartInChildTree) \<and>
            peekReader_NextPart w2 = (Inl EOF, w3)"
  have rd': "Reader (it_f it') \<noteq> Some OtherReader"
    using assms Next_it_f [of pm it w False it' w'] by simp
  show "advances pm n it' w' = (False, it', if Reader (it_f it') = None then w' else w3)"
  proof (cases "Reader (it_f it')")
    case None
    then have "Next pm it' w' = (False, it', w')" by (simp add: Next_def)
    with None show ?thesis by (simp add: advances_fixpoint)
  next
    case (Some r)
    with rd' have peek: "Reader (it_f it') = Some PeekReader" by (cases r) simp_all
    from a have sk: "skip_parts PeekReader ps w' = Some w2"
      and inc: "\<forall>p\<in>set ps. snd (snd (newFileFromPart pm (fileName (it_f it')) p (Some PeekReader))) =
                           Some ErrPartInChildTree"
      and eof: "peekReader_NextPart w2 = (Inl EOF, w3)" by simp_all
    from Next_peek_discard_to_end [OF peek sk inc eof] peek show ?thesis
      by (simp add: advances_settle)
  qed
qed

theorem Next_terminal_stable_witness:
  "Next sample_ParseMediaType (Entries sample_dir_a) (sample_world [Got sample_b] None) =
     (False, Entries sample_dir_a,
      \<lparr>src_items = [], src_calls = 1, pr_r = True, pr_next = Some sample_b\<rparr>) \<and>
   advances sample_ParseMediaType 2 (Entries sample_dir_a)
     \<lparr>src_items = [], src_calls = 1, pr_r = True, pr_next = Some sample_b\<rparr> =
     (False, Entries sample_dir_a,
      \<lparr>src_items = [], src_calls = 1, pr_r = True, pr_next = Some sample_b\<rparr>) \<and>
   Next sample_ParseMediaType (Entries sample_root) (sample_world [] None) =
     (False, Entries sample_root,
      \<lparr>src_items = [], src_calls = 1, pr_r = False, pr_next = None\<rparr>) \<and>
   advances sample_ParseMediaType 2 (Entries sample_root)
     \<lparr>src_items = [], src_calls = 1, pr_r = False, pr_next = None\<rparr> =
     (False, Entries sample_root,
      \<lparr>src_items = [], src_calls = 1, pr_r = False, pr_next = None\<rparr>) \<and>
   Next sample_ParseMediaType (Entries sample_root)
     (sample_world [Got sample_bad, Got sample_ax] None) =
     (False,
      \<lparr>it_f = sample_root, it_curFile = None, it_curName = [],
       it_err = Some (MediaTypeError ''mime: expected token after slash'')\<rparr>,
      \<lparr>src_items = [Got sample_ax], src_calls = 1, pr_r = True, pr_next = None\<rparr>) \<and>
   advances sample_ParseMediaType 2
     \<lparr>it_f = sample_root, it_curFile = None, it_curName = [],
      it_err = Some (MediaTypeError ''mime: expected token after slash'')\<rparr>
     \<lparr>src_items = [Got sample_ax], src_calls = 1, pr_r = True, pr_next = None\<rparr> =
     (False,
      \<lparr>it_f = sample_root, it_curFile = None, it_curName = [],
       it_err = Some (MediaTypeError ''mime: expected token after slash'')\<rparr>,
      \<lparr>src_items = [], src_calls = 3, pr_r = False, pr_next = None\<rparr>)"
proof -
  let ?it1 = "\<lparr>it_f = sample_root, it_curFile = None, it_curName = [],
      it_err = Some (MediaTypeError ''mime: expected token after slash'')\<rparr>"
  let ?w1 = "\<lparr>src_items = [Got sample_ax], src_calls = 1, pr_r = True, pr_next = None\<rparr>"
  let ?w2 = "\<lparr>src_items = [], src_calls = 2, pr_r = True, pr_next = None\<rparr>"
  let ?w3 = "\<lparr>src_items = [], src_calls = 3, pr_r = False, pr_next = None\<rparr>"
  have r1: "Reader (it_f (Entries sample_dir_a)) \<noteq> Some OtherReader"
    and r2: "Reader (it_f (Entries sample_root)) \<noteq> Some OtherReader"
    by (simp_all add: Entries_def sample_dir_a_def sample_root_def)
  have e1: "Err (Entries sample_dir_a) = None" and e2: "Err (Entries sample_root) = None"
    by (simp_all add: Entries_def Err_def)
  have n1: "Next sample_ParseMediaType (Entries sample_dir_a) (sample_world [Got sample_b] None) =
     (False, Entries sample_dir_a,
      \<lparr>src_items = [], src_calls = 1, pr_r = True, pr_next = Some sample_b\<rparr>)"
    by code_simp
  have n2: "Next sample_ParseMediaType (Entries sample_root) (sample_world [] None) =
     (False, Entries sample_root,
      \<lparr>src_items = [], src_calls = 1, pr_r = False, pr_next = None\<rparr>)"
    by code_simp
  have n3: "Next sample_ParseMediaType (Entries sample_root)
     (sample_world [Got sample_bad, Got sample_ax] None) = (False, ?it1, ?w1)"
    by code_simp
  have sk: "skip_parts PeekReader [sample_ax] ?w1 = Some ?w2"
    by code_simp
  have inc: "\<forall>p\<in>set [sample_ax].
      snd (snd (newFileFromPart sample_ParseMediaType (fileName (it_f ?it1)) p (Some PeekReader))) =
        Some ErrPartInChildTree"
    by code_simp
  have eof: "peekReader_NextPart ?w2 = (Inl EOF, ?w3)"
    by code_simp
  have rd3: "Reader (it_f ?it1) \<noteq> None"
    by (simp add: sample_root_def)
  have a1: "advances sample_ParseMediaType 2 (Entries sample_dir_a)
     \<lparr>src_items = [], src_calls = 1, pr_r = True, pr_next = Some sample_b\<rparr> =
     (False, Entries sample_dir_a,
      \<lparr>src_items = [], src_calls = 1, pr_r = True, pr_next = Some sample_b\<rparr>)"
    using Next_terminal_stable [OF r1 n1, of 2, THEN conjunct1] e1 by simp
  have a2: "advances sample_ParseMediaType 2 (Entries sample_root)
     \<lparr>src_items = [], src_calls = 1, pr_r = False, pr_next = None\<rparr> =
     (False, Entries sample_root,
      \<lparr>src_items = [], src_calls = 1, pr_r = False, pr_next = None\<rparr>)"
    using Next_terminal_stable [OF r2 n2, of 2, THEN conjunct1] e2 by simp
  have a3: "advances sample_ParseMediaType 2 ?it1 ?w1 = (False, ?it1, ?w3)"
    using Next_terminal_stable [OF r2 n3, of 2, THEN conjunct2, rule_format,
        of "[sample_ax]" ?w2 ?w3] sk inc eof rd3
    by simp
  from n1 a1 n2 a2 n3 a3 show ?thesis by simp
qed

subsection \<open>Traversal trees\<close>

lemma peekReader_NextPart_err:
  "peekReader_NextPart w = (Inl e, w') \<Longrightarrow> e = EOF \<or> (\<exists>m. e = SourceError m)"
  by (auto simp: peekReader_NextPart_def source_NextPart_def
      split: option.splits if_splits list.splits outcome.splits)

lemma newFileFromPart_err_not_new:
  "snd (snd (newFileFromPart pm parent part rd)) \<noteq> Some (ErrorsNew m)"
  by (cases "pm (Header_Get part contentTypeHeader)")
     (simp add: newFileFromPart_unfold ReadAll_cases split: option.splits)

lemma newFileFromPart_dir_reader:
  "newFileFromPart pm parent part rd = (name, Some (Directory d), e) \<Longrightarrow>
   Reader d = rd \<and> Part d = Some part"
  by (cases "pm (Header_Get part contentTypeHeader)")
     (auto simp: newFileFromPart_unfold ReadAll_cases split: option.splits if_splits)

lemma Next_loop_yields_dir:
  "Next_loop pm it rd w = (True, it', w') \<Longrightarrow> it_curFile it' = Some (Directory d) \<Longrightarrow>
   Reader d = Some rd"
proof (induction pm it rd w rule: Next_loop.induct)
  case (1 pm it rd w)
  obtain res w1 where pull: "Reader_NextPart rd w = (res, w1)"
    by (cases "Reader_NextPart rd w")
  show ?case
  proof (cases res)
    case (Inl e)
    with pull "1.prems"(1) show ?thesis
      by (cases "e = EOF") (simp_all add: Next_loop_EOF Next_loop_fail)
  next
    case (Inr p)
    obtain name cf e where cls: "newFileFromPart pm (fileName (it_f it)) p (Some rd) = (name, cf, e)"
      by (cases "newFileFromPart pm (fileName (it_f it)) p (Some rd)")
    consider (out) "e = Some ErrPartOutsideParent" | (inc) "e = Some ErrPartInChildTree"
      | (ent) "e \<noteq> Some ErrPartOutsideParent" "e \<noteq> Some ErrPartInChildTree"
      by blast
    then show ?thesis
    proof cases
      case out
      with pull Inr cls have "Next_loop pm it rd w = Next_undo it rd p w1"
        by (simp add: Next_loop_outside)
      with "1.prems"(1) show ?thesis
        by (simp add: Next_undo_def split: part_reader.splits prod.splits)
    next
      case inc
      with pull Inr cls have "Next_loop pm it rd w = Next_loop pm it rd w1"
        by (simp add: Next_loop_in_child)
      with "1.prems"(1) have "Next_loop pm it rd w1 = (True, it', w')" by simp
      with "1.IH" [OF pull [symmetric] Inr cls [symmetric] refl] inc "1.prems"(2)
      show ?thesis by simp
    next
      case ent
      with pull Inr cls have "Next_loop pm it rd w =
          (e = None, it\<lparr>it_curFile := cf, it_curName := name, it_err := e\<rparr>, w1)"
        by (simp add: Next_loop_entry)
      with "1.prems" have "cf = Some (Directory d)" by auto
      with cls show ?thesis by (simp add: newFileFromPart_dir_reader)
    qed
  qed
qed

lemma Next_loop_peek_err:
  "Next_loop pm it rd w = (ok, it', w') \<Longrightarrow> rd = PeekReader \<Longrightarrow>
   it_err it' = Some (ErrorsNew m) \<Longrightarrow> it_err it = Some (ErrorsNew m)"
proof (induction pm it rd w rule: Next_loop.induct)
  case (1 pm it rd w)
  obtain res w1 where pull: "Reader_NextPart rd w = (res, w1)"
    by (cases "Reader_NextPart rd w")
  then have ppull: "peekReader_NextPart w = (res, w1)"
    using "1.prems"(2) by simp
  show ?case
  proof (cases res)
    case (Inl e)
    show ?thesis
    proof (cases "e = EOF")
      case True
      with pull Inl "1.prems"(1,3) show ?thesis by (simp add: Next_loop_EOF)
    next
      case False
      with pull Inl have "Next_loop pm it rd w = (False, it\<lparr>it_err := Some e\<rparr>, w1)"
        by (simp add: Next_loop_fail)
      with "1.prems"(1,3) have "e = ErrorsNew m" by auto
      with peekReader_NextPart_err [of w e w1] ppull Inl show ?thesis by auto
    qed
  next
    case (Inr p)
    obtain name cf e where cls: "newFileFromPart pm (fileName (it_f it)) p (Some rd) = (name, cf, e)"
      by (cases "newFileFromPart pm (fileName (it_f it)) p (Some rd)")
    have slot: "pr_next w1 = None"
      using ppull by (rule peekReader_NextPart_slot_empty)
    consider (out) "e = Some ErrPartOutsideParent" | (inc) "e = Some ErrPartInChildTree"
      | (ent) "e \<noteq> Some ErrPartOutsideParent" "e \<noteq> Some ErrPartInChildTree"
      by blast
    then show ?thesis
    proof cases
      case out
      with pull Inr cls have "Next_loop pm it rd w = Next_undo it rd p w1"
        by (simp add: Next_loop_outside)
      also have "\<dots> = (False, it\<lparr>it_err := None\<rparr>, w1\<lparr>pr_next := Some p\<rparr>)"
        using slot "1.prems"(2) by (simp add: Next_undo_peek_empty)
      finally show ?thesis using "1.prems"(1,3) by auto
    next
      case inc
      with pull Inr cls have "Next_loop pm it rd w = Next_loop pm it rd w1"
        by (simp add: Next_loop_in_child)
      with "1.prems"(1) have "Next_loop pm it rd w1 = (ok, it', w')" by simp
      with "1.IH" [OF pull [symmetric] Inr cls [symmetric] refl] inc "1.prems"(2,3)
      show ?thesis by simp
    next
      case ent
      with pull Inr cls have "Next_loop pm it rd w =
          (e = None, it\<lparr>it_curFile := cf, it_curName := name, it_err := e\<rparr>, w1)"
        by (simp add: Next_loop_entry)
      with "1.prems"(1,3) have "e = Some (ErrorsNew m)" by auto
      with cls newFileFromPart_err_not_new [of pm "fileName (it_f it)" p "Some rd" m]
      show ?thesis by simp
    qed
  qed
qed

lemma in_tree_Reader: "in_tree pm d \<Longrightarrow> Reader d = Some PeekReader"
proof (induction rule: in_tree.induct)
  case (root reader mediatype d w)
  then show ?case
    by (auto simp: NewFileFromPartReader_def split: if_splits)
next
  case (child d it w it' w' d')
  then have "Next_loop pm it PeekReader w = (True, it', w')"
    by (simp add: Next_peek)
  then show ?case
    using child.hyps(4) by (rule Next_loop_yields_dir)
qed

text \<open>
  C10.  In a traversal tree rooted by \<^verbatim>\<open>NewFileFromPartReader\<close> every directory reads
  through the one \<^verbatim>\<open>peekReader\<close>, so the type assertion of the pushback code succeeds.
  An advance of an iterator over such a directory never records an \<^verbatim>\<open>errors.New\<close> error
  (``cannot undo NextPart'', ``cannot put multiple parts''): if one is stored afterwards,
  it was stored before the call.  When the advance pulls an outside-parent part, the slot
  is empty at that moment, the pushback succeeds, and the advance ends the directory with
  the end marker and a nil error.
\<close>

theorem traversal_pushback_never_fails:
  assumes "in_tree pm d" and "it_f it = d"
  shows "Reader d = Some PeekReader \<and>
         (\<forall>w ok it' w' m. Next pm it w = (ok, it', w') \<and> Err it' = Some (ErrorsNew m) \<longrightarrow>
            Err it = Some (ErrorsNew m)) \<and>
         (\<forall>w p w1. peekReader_NextPart w = (Inr p, w1) \<and>
            snd (snd (newFileFromPart pm (fileName d) p (Some PeekReader))) =
              Some ErrPartOutsideParent \<longrightarrow>
            pr_next w1 = None \<and>
            peekReader_put p w1 = (None, w1\<lparr>pr_next := Some p\<rparr>) \<and>
            Next pm it w = (False, it\<lparr>it_err := None\<rparr>, w1\<lparr>pr_next := Some p\<rparr>))"
proof -
  have peek: "Reader (it_f it) = Some PeekReader"
    using assms by (simp add: in_tree_Reader)
  have a: "Reader d = Some PeekReader"
    using assms(1) by (rule in_tree_Reader)
  have b: "Err it = Some (ErrorsNew m)"
    if "Next pm it w = (ok, it', w')" "Err it' = Some (ErrorsNew m)" for w ok it' w' m
    using that peek Next_loop_peek_err [of pm it PeekReader w ok it' w' m]
    by (simp add: Next_peek Err_def)
  have c: "pr_next w1 = None \<and>
            peekReader_put p w1 = (None, w1\<lparr>pr_next := Some p\<rparr>) \<and>
            Next pm it w = (False, it\<lparr>it_err := None\<rparr>, w1\<lparr>pr_next := Some p\<rparr>)"
    if pull: "peekReader_NextPart w = (Inr p, w1)"
      and cls: "snd (snd (newFileFromPart pm (fileName d) p (Some PeekReader))) =
              Some ErrPartOutsideParent" for w p w1
  proof -
    have slot: "pr_next w1 = None"
      using pull by (rule peekReader_NextPart_slot_empty)
    have "Next pm it w = Next_undo it PeekReader p w1"
      using peek pull cls assms(2) by (simp add: Next_peek Next_loop_outside)
    with slot show ?thesis
      by (simp add: Next_undo_peek_empty peekReader_put_empty)
  qed
  from a b c show ?thesis by blast
qed

theorem traversal_pushback_never_fails_witness:
  "in_tree sample_ParseMediaType sample_dir_a \<and>
   Reader sample_dir_a = Some PeekReader \<and>
   peekReader_NextPart \<lparr>src_items = [Got sample_b], src_calls = 1, pr_r = True, pr_next = None\<rparr> =
     (Inr sample_b, \<lparr>src_items = [], src_calls = 2, pr_r = True, pr_next = None\<rparr>) \<and>
   peekReader_put sample_b \<lparr>src_items = [], src_calls = 2, pr_r = True, pr_next = None\<rparr> =
     (None, \<lparr>src_items = [], src_calls = 2, pr_r = True, pr_next = Some sample_b\<rparr>) \<and>
   Next sample_ParseMediaType (Entries sample_dir_a)
     \<lparr>src_items = [Got sample_b], src_calls = 1, pr_r = True, pr_next = None\<rparr> =
     (False, Entries sample_dir_a,
      \<lparr>src_items = [], src_calls = 2, pr_r = True, pr_next = Some sample_b\<rparr>)"
proof -
  let ?a = "sample_part ''a'' multipartFormdataType []"
  let ?w1 = "\<lparr>src_items = [Got sample_b], src_calls = 1, pr_r = True, pr_next = None\<rparr>"
  let ?w2 = "\<lparr>src_items = [], src_calls = 2, pr_r = True, pr_next = None\<rparr>"
  have "NewFileFromPartReader [Got ?a, Got sample_b] multipartFormdataType =
          Inr (sample_root, sample_world [Got ?a, Got sample_b] None)"
    by (simp add: NewFileFromPartReader_def isDirectory_def sample_root_def sample_world_def)
  then have root: "in_tree sample_ParseMediaType sample_root"
    by (rule in_tree.root)
  have first: "Next sample_ParseMediaType (Entries sample_root)
      (sample_world [Got ?a, Got sample_b] None) =
      (True, \<lparr>it_f = sample_root, it_curFile = Some (Directory sample_dir_a),
              it_curName = ''a'', it_err = None\<rparr>, ?w1)"
    by code_simp
  have tree: "in_tree sample_ParseMediaType sample_dir_a"
    by (rule in_tree.child [OF root _ first]) (simp_all add: Entries_def)
  have itf: "it_f (Entries sample_dir_a) = sample_dir_a"
    by (simp add: Entries_def)
  have pull: "peekReader_NextPart ?w1 = (Inr sample_b, ?w2)"
    by (simp add: peekReader_NextPart_def source_NextPart_def)
  have cls: "snd (snd (newFileFromPart sample_ParseMediaType (fileName sample_dir_a) sample_b
                (Some PeekReader))) = Some ErrPartOutsideParent"
    by code_simp
  have e: "(Entries sample_dir_a)\<lparr>it_err := None\<rparr> = Entries sample_dir_a"
    by (simp add: Entries_def)
  note t = traversal_pushback_never_fails [OF tree itf]
  have "Reader sample_dir_a = Some PeekReader"
    using t [THEN conjunct1] .
  moreover have "pr_next ?w2 = None \<and>
      peekReader_put sample_b ?w2 = (None, ?w2\<lparr>pr_next := Some sample_b\<rparr>) \<and>
      Next sample_ParseMediaType (Entries sample_dir_a) ?w1 =
        (False, (Entries sample_dir_a)\<lparr>it_err := None\<rparr>, ?w2\<lparr>pr_next := Some sample_b\<rparr>)"
    using t [THEN conjunct2, THEN conjunct2, rule_format, of ?w1 sample_b ?w2] pull cls
    by simp
  ultimately show ?thesis
    using tree pull by (simp add: e)
qed

subsection \<open>Paths of proper segments\<close>

lemma proper_hd: "proper n \<Longrightarrow> \<exists>c t. n = c # t \<and> c \<noteq> CHR ''/''"
  by (cases n) (auto simp: proper_def)

lemma takeWhile_proper:
  "CHR ''/'' \<notin> set n \<Longrightarrow> r = [] \<or> hd r = CHR ''/'' \<Longrightarrow>
   takeWhile (\<lambda>x. x \<noteq> CHR ''/'') (n @ r) = n"
  by (cases r) (auto simp: takeWhile_tail takeWhile_eq_all_conv)

lemma dropWhile_proper:
  "CHR ''/'' \<notin> set n \<Longrightarrow> r = [] \<or> hd r = CHR ''/'' \<Longrightarrow>
   dropWhile (\<lambda>x. x \<noteq> CHR ''/'') (n @ r) = r"
  by (cases r) (auto simp: dropWhile_append3 dropWhile_eq_Nil_conv)

lemma clean_loop_segment:
  assumes n: "proper n" and r: "r = [] \<or> hd r = CHR ''/''"
  shows "clean_loop False (n @ r) out dd =
         clean_loop False r ((if out = [] then out else out @ ''/'') @ n) dd"
proof -
  from n obtain c t where nc: "n = c # t" and c: "c \<noteq> CHR ''/''"
    using proper_hd by blast
  have noslash: "CHR ''/'' \<notin> set n" using n by (simp add: proper_def)
  have dot: "\<not> (c = CHR ''.'' \<and> (t @ r = [] \<or> hd (t @ r) = CHR ''/''))"
  proof
    assume a: "c = CHR ''.'' \<and> (t @ r = [] \<or> hd (t @ r) = CHR ''/'')"
    show False
    proof (cases t)
      case Nil
      with a nc n show False by (simp add: proper_def)
    next
      case (Cons d t')
      with a nc noslash show False by auto
    qed
  qed
  have dotdot: "\<not> (c = CHR ''.'' \<and> hd (t @ r) = CHR ''.'' \<and>
                   (tl (t @ r) = [] \<or> hd (tl (t @ r)) = CHR ''/''))"
  proof
    assume a: "c = CHR ''.'' \<and> hd (t @ r) = CHR ''.'' \<and>
                   (tl (t @ r) = [] \<or> hd (tl (t @ r)) = CHR ''/'')"
    show False
    proof (cases t)
      case Nil
      with a nc n show False by (simp add: proper_def)
    next
      case (Cons d t')
      show False
      proof (cases t')
        case Nil
        with Cons a nc n show False by (simp add: proper_def)
      next
        case (Cons d' t'')
        with \<open>t = d # t'\<close> a nc noslash show False by auto
      qed
    qed
  qed
  have "clean_loop False (c # (t @ r)) out dd =
        clean_loop False (dropWhile (\<lambda>x. x \<noteq> CHR ''/'') (c # (t @ r)))
          ((if out = [] then out else out @ ''/'') @ takeWhile (\<lambda>x. x \<noteq> CHR ''/'') (c # (t @ r))) dd"
  proof -
    have c1: "(c = CHR ''/'') = False" using c by simp
    have c2: "(c = CHR ''.'' \<and> (t @ r = [] \<or> hd (t @ r) = CHR ''/'')) = False"
      using dot by simp
    have c3: "(c = CHR ''.'' \<and> hd (t @ r) = CHR ''.'' \<and>
                   (tl (t @ r) = [] \<or> hd (tl (t @ r)) = CHR ''/'')) = False"
      using dotdot by simp
    show ?thesis
      apply (subst clean_loop.simps)
      apply (simp only: list.case c1 c2 c3 if_False)
      apply (simp add: Let_def)
      done
  qed
  moreover have "takeWhile (\<lambda>x. x \<noteq> CHR ''/'') (c # (t @ r)) = n"
    using takeWhile_proper [OF noslash r] nc by simp
  moreover have "dropWhile (\<lambda>x. x \<noteq> CHR ''/'') (c # (t @ r)) = r"
    using dropWhile_proper [OF noslash r] nc by simp
  ultimately show ?thesis using nc by simp
qed

lemma clean_loop_Nil: "clean_loop rooted [] out dd = out"
  by (subst clean_loop.simps) simp

lemma clean_loop_slash: "clean_loop rooted (CHR ''/'' # t) out dd = clean_loop rooted t out dd"
  by (subst clean_loop.simps) simp

lemma clean_loop_segs:
  "list_all proper segs \<Longrightarrow> segs \<noteq> [] \<Longrightarrow> r = [] \<or> r = ''/'' \<Longrightarrow>
   clean_loop False (joinSegs segs @ r) out dd =
     (if out = [] then out else out @ ''/'') @ joinSegs segs"
proof (induction segs arbitrary: out rule: joinSegs.induct)
  case 1
  then show ?case by simp
next
  case (2 n)
  then have "clean_loop False (n @ r) out dd =
             clean_loop False r ((if out = [] then out else out @ ''/'') @ n) dd"
    by (intro clean_loop_segment) auto
  with 2 show ?case
    by (auto simp: clean_loop_Nil clean_loop_slash)
next
  case (3 n m ms)
  have pn: "proper n" and rest: "list_all proper (m # ms)"
    using 3(2) by simp_all
  have "clean_loop False (n @ (''/'' @ joinSegs (m # ms) @ r)) out dd =
        clean_loop False (''/'' @ joinSegs (m # ms) @ r) ((if out = [] then out else out @ ''/'') @ n) dd"
    using pn by (intro clean_loop_segment) auto
  also have "\<dots> = clean_loop False (joinSegs (m # ms) @ r) ((if out = [] then out else out @ ''/'') @ n) dd"
    by (simp add: clean_loop_slash)
  also have "\<dots> = ((if out = [] then out else out @ ''/'') @ n) @ ''/'' @ joinSegs (m # ms)"
    using "3.IH" [OF rest _ "3.prems"(3), of "(if out = [] then out else out @ ''/'') @ n"] pn
    by (auto simp: proper_def)
  finally show ?case by simp
qed

lemma joinSegs_hd_not_slash:
  "list_all proper segs \<Longrightarrow> segs \<noteq> [] \<Longrightarrow> joinSegs segs \<noteq> [] \<and> hd (joinSegs segs) \<noteq> CHR ''/''"
proof (induction segs rule: joinSegs.induct)
  case 1
  then show ?case by simp
next
  case (2 n)
  then have "n \<noteq> []" "CHR ''/'' \<notin> set n" by (simp_all add: proper_def)
  then show ?case by (cases n) auto
next
  case (3 n m ms)
  then have "n \<noteq> []" "CHR ''/'' \<notin> set n" by (simp_all add: proper_def)
  then show ?case by (cases n) auto
qed

lemma joinSegs_not_dot:
  "list_all proper segs \<Longrightarrow> joinSegs segs \<noteq> ''.''"
proof (induction segs rule: joinSegs.induct)
  case (3 n m ms)
  then have "n \<noteq> []" by (simp add: proper_def)
  then show ?case by (cases n) auto
qed (auto simp: proper_def)

lemma path_Clean_cleanPath:
  assumes "cleanPath p" "p \<noteq> []" "r = [] \<or> r = ''/''"
  shows "path_Clean (p @ r) = p"
proof -
  from assms(1) obtain segs where s12: "list_all proper segs" "p = joinSegs segs"
    by (auto simp: cleanPath_def)
  with assms(2) have "segs \<noteq> []" by auto
  note segs = s12 this
  have hd: "hd (p @ r) \<noteq> CHR ''/''" and ne: "p \<noteq> []"
    using joinSegs_hd_not_slash [OF segs(1,3)] segs(2) by auto
  have "clean_loop False (p @ r) [] 0 = p"
    using clean_loop_segs [OF segs(1,3) assms(3), of "[]" 0] segs(2) by simp
  with hd ne show ?thesis
    by (simp add: path_Clean_def Let_def)
qed

lemma cleanDir_cleanPath: "cleanPath p \<Longrightarrow> cleanDir p = p"
proof (cases "p = []")
  case True
  have "path_Clean [] = ''.''" by (simp add: path_Clean_def)
  with True show ?thesis by (simp add: cleanDir_def)
next
  case False
  assume cp: "cleanPath p"
  then have "path_Clean p = p"
    using path_Clean_cleanPath [OF cp False, of "[]"] by simp
  moreover have "p \<noteq> ''.''"
    using cp joinSegs_not_dot by (auto simp: cleanPath_def)
  ultimately show ?thesis by (simp add: cleanDir_def)
qed

lemma cleanDir_cleanPath_slash: "cleanPath p \<Longrightarrow> p \<noteq> [] \<Longrightarrow> cleanDir (p @ ''/'') = p"
proof -
  assume cp: "cleanPath p" and ne: "p \<noteq> []"
  then have "path_Clean (p @ ''/'') = p"
    using path_Clean_cleanPath [OF cp ne, of "''/''"] by simp
  moreover have "p \<noteq> ''.''"
    using cp joinSegs_not_dot by (auto simp: cleanPath_def)
  ultimately show ?thesis by (simp add: cleanDir_def)
qed

lemma lastSlash_none: "CHR ''/'' \<notin> set n \<Longrightarrow> lastSlash n = 0"
  by (induction n) (auto simp: Let_def)

lemma lastSlash_append: "CHR ''/'' \<notin> set n \<Longrightarrow> lastSlash (xs @ CHR ''/'' # n) = Suc (length xs)"
  by (induction xs) (auto simp: Let_def lastSlash_none)

lemma path_Split_joinPath:
  "CHR ''/'' \<notin> set n \<Longrightarrow>
   path_Split (joinPath dir n) = (if dir = [] then [] else dir @ ''/'', n)"
  using lastSlash_append [of n dir]
  by (auto simp: path_Split_def joinPath_def lastSlash_none)

lemma joinSegs_Nil_iff: "list_all proper segs \<Longrightarrow> joinSegs segs = [] \<longleftrightarrow> segs = []"
  by (induction segs rule: joinSegs.induct) (auto simp: proper_def)

lemma joinSegs_snoc:
  "list_all proper segs \<Longrightarrow> joinSegs (segs @ [n]) = joinPath (joinSegs segs) n"
proof (induction segs rule: joinSegs.induct)
  case (3 m k ks)
  then have "joinSegs (k # ks) \<noteq> []"
    using joinSegs_Nil_iff [of "k # ks"] by simp
  with 3 show ?case
    by (cases "ks @ [n]") (auto simp: joinPath_def)
qed (auto simp: joinPath_def proper_def)

lemma cleanPath_Nil: "cleanPath []"
  unfolding cleanPath_def by (rule exI [of _ "[]"]) simp

lemma cleanPath_joinPath: "cleanPath dir \<Longrightarrow> proper n \<Longrightarrow> cleanPath (joinPath dir n)"
proof -
  assume "cleanPath dir" and n: "proper n"
  then obtain segs where segs: "list_all proper segs" "dir = joinSegs segs"
    by (auto simp: cleanPath_def)
  have "list_all proper (segs @ [n])" using segs(1) n by simp
  moreover have "joinPath dir n = joinSegs (segs @ [n])"
    using segs by (simp add: joinSegs_snoc)
  ultimately show ?thesis unfolding cleanPath_def by blast
qed

lemma declared_joinPath:
  assumes "cleanPath dir" "proper n" "partName p = joinPath dir n"
  shows "declaredDir p = dir" and "baseName p = n"
proof -
  have ns: "CHR ''/'' \<notin> set n" using assms(2) by (simp add: proper_def)
  have sp: "path_Split (partName p) = (if dir = [] then [] else dir @ ''/'', n)"
    using assms(3) path_Split_joinPath [OF ns] by simp
  show "baseName p = n" by (simp add: baseName_def sp)
  show "declaredDir p = dir"
  proof (cases "dir = []")
    case True
    with sp cleanDir_cleanPath [OF cleanPath_Nil] show ?thesis
      by (simp add: declaredDir_def)
  next
    case False
    with sp cleanDir_cleanPath_slash [OF assms(1)] show ?thesis
      by (simp add: declaredDir_def)
  qed
qed

lemma HasPrefix_prefix: "HasPrefix s pre \<longleftrightarrow> prefix pre s"
  by (auto simp: HasPrefix_def prefix_def) (metis append_take_drop_id)

lemma prefix_joinPath: "prefix dir (joinPath dir n)"
  by (simp add: joinPath_def)

lemma joinPath_longer: "proper n \<Longrightarrow> length dir < length (joinPath dir n)"
  by (auto simp: joinPath_def proper_def)

lemma beyond_child: "beyond dir rest \<Longrightarrow> beyond (joinPath dir n) rest"
proof (cases rest)
  case Nil
  then show ?thesis by (simp add: beyond_def)
next
  case (Cons r rs)
  assume "beyond dir rest"
  with Cons have a: "declaredDir r \<noteq> dir" "\<not> prefix dir (declaredDir r)"
    by (simp_all add: beyond_def HasPrefix_prefix)
  have "\<not> prefix (joinPath dir n) (declaredDir r)"
    using a(2) prefix_joinPath [of dir n] prefix_order.trans by blast
  moreover from this have "declaredDir r \<noteq> joinPath dir n" by auto
  ultimately show ?thesis using Cons by (simp add: beyond_def HasPrefix_prefix)
qed

lemma beyond_sibling:
  "proper n \<Longrightarrow> declaredDir r = dir \<Longrightarrow> beyond (joinPath dir n) (r # rs)"
proof -
  assume n: "proper n" and r: "declaredDir r = dir"
  have len: "length dir < length (joinPath dir n)" using n by (rule joinPath_longer)
  then have "dir \<noteq> joinPath dir n" by auto
  moreover have "\<not> prefix (joinPath dir n) dir"
    using len prefix_length_le [of "joinPath dir n" dir] by auto
  ultimately show ?thesis using r by (simp add: beyond_def HasPrefix_prefix)
qed

subsection \<open>Draining a well-formed part sequence\<close>

lemma feeds_Nil_pull:
  "feeds w [] \<Longrightarrow> \<exists>w'. peekReader_NextPart w = (Inl EOF, w') \<and> feeds w' []"
  by (auto simp: feeds_def peekReader_NextPart_def source_NextPart_def
      split: option.splits if_splits)

lemma feeds_Cons_pull:
  "feeds w (p # xs) \<Longrightarrow> \<exists>w1. peekReader_NextPart w = (Inr p, w1) \<and> feeds w1 xs"
proof (cases "pr_next w")
  case None
  assume "feeds w (p # xs)"
  with None have "pr_r w" "src_items w = Got p # map Got xs"
    by (auto simp: feeds_def split: if_splits)
  with None show ?thesis
    by (simp add: feeds_def peekReader_NextPart_def source_NextPart_def)
next
  case (Some q)
  assume "feeds w (p # xs)"
  with Some show ?thesis
    by (auto simp: feeds_def peekReader_NextPart_def)
qed

lemma feeds_put:
  "feeds w xs \<Longrightarrow> pr_next w = None \<Longrightarrow> feeds (w\<lparr>pr_next := Some p\<rparr>) (p # xs)"
  by (auto simp: feeds_def)

lemma Next_feeds_end:
  assumes "Reader (it_f it) = Some PeekReader" "feeds w []"
  shows "\<exists>w'. Next pm it w = (False, it, w') \<and> feeds w' [] \<and> \<not> pr_r w'"
proof -
  from feeds_Nil_pull [OF assms(2)] obtain w' where
    pull: "peekReader_NextPart w = (Inl EOF, w')" and "feeds w' []" by blast
  moreover have "\<not> pr_r w'"
    using pull by (rule peekReader_NextPart_EOF_drops_source)
  ultimately show ?thesis
    using assms(1) by (auto simp: Next_peek Next_loop_EOF)
qed

lemma Next_feeds_beyond:
  assumes rd: "Reader (it_f it) = Some PeekReader"
    and f: "feeds w (r # rs)"
    and b: "beyond (cleanDir (fileName (it_f it))) (r # rs)"
  shows "\<exists>w'. Next pm it w = (False, it\<lparr>it_err := None\<rparr>, w') \<and> feeds w' (r # rs)"
proof -
  from feeds_Cons_pull [OF f] obtain w1 where
    pull: "peekReader_NextPart w = (Inr r, w1)" and f1: "feeds w1 rs" by blast
  have slot: "pr_next w1 = None"
    using pull by (rule peekReader_NextPart_slot_empty)
  from b have "declaredDir r \<noteq> cleanDir (fileName (it_f it))"
    "\<not> HasPrefix (declaredDir r) (cleanDir (fileName (it_f it)))"
    by (simp_all add: beyond_def)
  then have "snd (snd (newFileFromPart pm (fileName (it_f it)) r (Some PeekReader))) =
               Some ErrPartOutsideParent"
    by (simp add: newFileFromPart_not_child)
  with pull have "Next_loop pm it PeekReader w = Next_undo it PeekReader r w1"
    by (simp add: Next_loop_outside)
  with slot rd have "Next pm it w = (False, it\<lparr>it_err := None\<rparr>, w1\<lparr>pr_next := Some r\<rparr>)"
    by (simp add: Next_peek Next_undo_peek_empty)
  moreover have "feeds (w1\<lparr>pr_next := Some r\<rparr>) (r # rs)"
    using f1 slot by (rule feeds_put)
  ultimately show ?thesis by blast
qed

lemma Next_feeds_entry:
  assumes rd: "Reader (it_f it) = Some PeekReader"
    and f: "feeds w (p # xs)"
    and cls: "newFileFromPart pm (fileName (it_f it)) p (Some PeekReader) = (name, Some nd, None)"
  shows "\<exists>w1. Next pm it w =
           (True, it\<lparr>it_curFile := Some nd, it_curName := name, it_err := None\<rparr>, w1) \<and>
           feeds w1 xs"
proof -
  from feeds_Cons_pull [OF f] obtain w1 where
    pull: "peekReader_NextPart w = (Inr p, w1)" and f1: "feeds w1 xs" by blast
  have "Next_loop pm it PeekReader w =
          (True, it\<lparr>it_curFile := Some nd, it_curName := name, it_err := None\<rparr>, w1)"
    using Next_loop_entry [of PeekReader w p w1 pm it name "Some nd" None] pull cls by simp
  with rd f1 show ?thesis by (auto simp: Next_peek)
qed

lemma drain_end:
  assumes rd: "Reader (it_f it) = Some PeekReader"
    and e: "it_err it = None"
    and f: "feeds w rest"
    and b: "beyond (cleanDir (fileName (it_f it))) rest"
  shows "\<exists>it' w'. drain pm (Suc k) it w = Some ([], it', w') \<and> feeds w' rest \<and>
           it_err it' = None \<and> (rest = [] \<longrightarrow> \<not> pr_r w')"
proof (cases rest)
  case Nil
  with Next_feeds_end [OF rd, of w pm] f obtain w' where
    "Next pm it w = (False, it, w')" "feeds w' []" "\<not> pr_r w'" by blast
  with Nil e show ?thesis by simp
next
  case (Cons r rs)
  with Next_feeds_beyond [OF rd, of w r rs pm] f b obtain w' where
    "Next pm it w = (False, it\<lparr>it_err := None\<rparr>, w')" "feeds w' (r # rs)" by blast
  with Cons show ?thesis by simp
qed

lemma classify_child:
  assumes "cleanPath dir" "proper n" "partName p = joinPath dir n" "cleanDir parent = dir"
  shows "part_kind pm p = Some FileKind \<Longrightarrow>
           \<exists>a. newFileFromPart pm parent p rd = (n, Some (ReaderFile p a), None)"
    and "part_kind pm p = Some SymlinkKind \<Longrightarrow>
           \<exists>t. newFileFromPart pm parent p rd = (n, Some (Symlink t), None)"
    and "part_kind pm p = Some DirKind \<Longrightarrow>
           \<exists>mt. newFileFromPart pm parent p rd =
             (n, Some (Directory \<lparr>Part = Some p, Reader = rd, Mediatype = mt\<rparr>), None)"
proof -
  have d: "declaredDir p = cleanDir parent" and b: "baseName p = n"
    using declared_joinPath [OF assms(1-3)] assms(4) by simp_all
  show "part_kind pm p = Some FileKind \<Longrightarrow>
           \<exists>a. newFileFromPart pm parent p rd = (n, Some (ReaderFile p a), None)"
    by (cases "pm (Header_Get p contentTypeHeader)")
       (auto simp: newFileFromPart_direct [OF d] b part_kind_def Let_def
          split: if_splits option.splits)
  show "part_kind pm p = Some SymlinkKind \<Longrightarrow>
           \<exists>t. newFileFromPart pm parent p rd = (n, Some (Symlink t), None)"
    by (cases "pm (Header_Get p contentTypeHeader)")
       (auto simp: newFileFromPart_direct [OF d] b part_kind_def Let_def
          split: if_splits option.splits)
  show "part_kind pm p = Some DirKind \<Longrightarrow>
           \<exists>mt. newFileFromPart pm parent p rd =
             (n, Some (Directory \<lparr>Part = Some p, Reader = rd, Mediatype = mt\<rparr>), None)"
    by (cases "pm (Header_Get p contentTypeHeader)")
       (auto simp: newFileFromPart_direct [OF d] b part_kind_def Let_def
          split: if_splits option.splits)
qed

lemma matches_Nil: "matches pm ps [] \<Longrightarrow> ps = []"
  by (simp add: matches_def)

lemma matches_Cons:
  "matches pm ps ((path, k) # xs) \<Longrightarrow>
   \<exists>p ps'. ps = p # ps' \<and> partName p = path \<and> part_kind pm p = Some k \<and> matches pm ps' xs"
  by (cases ps) (auto simp: matches_def)

lemma matches_append:
  "matches pm ps (xs @ ys) \<Longrightarrow>
   \<exists>ps1 ps2. ps = ps1 @ ps2 \<and> matches pm ps1 xs \<and> matches pm ps2 ys"
proof -
  assume "matches pm ps (xs @ ys)"
  then obtain us vs where "ps = us @ vs"
    "map (\<lambda>p. (partName p, part_kind pm p)) us = map (\<lambda>(path, k). (path, Some k)) xs"
    "map (\<lambda>p. (partName p, part_kind pm p)) vs = map (\<lambda>(path, k). (path, Some k)) ys"
    unfolding matches_def by (auto simp: map_eq_append_conv)
  then show ?thesis unfolding matches_def by blast
qed

lemma flatten_hd:
  "\<exists>k xs. flatten dir e = (joinPath dir (entry_name e), k) # xs"
  by (cases e) auto

lemma proper_entry_name: "proper_entry e \<Longrightarrow> proper (entry_name e)"
  by (cases e) auto

lemma matches_forest_declaredDir:
  assumes "matches pm (q # qs) (flatten_list dir es)" "proper_forest es" "cleanPath dir"
  shows "declaredDir q = dir"
proof (cases es)
  case Nil
  with assms(1) show ?thesis by (simp add: matches_def)
next
  case (Cons e es')
  obtain k xs where fl: "flatten dir e = (joinPath dir (entry_name e), k) # xs"
    using flatten_hd by blast
  with assms(1) Cons have "partName q = joinPath dir (entry_name e)"
    by (simp add: matches_def)
  moreover have "proper (entry_name e)"
    using assms(2) Cons by (simp add: proper_entry_name)
  ultimately show ?thesis
    using declared_joinPath(1) [OF assms(3)] by blast
qed

lemma beyond_after_children:
  assumes "matches pm ps' (flatten_list dir es')" "proper_forest es'" "cleanPath dir"
    "proper n" "beyond dir rest"
  shows "beyond (joinPath dir n) (ps' @ rest)"
proof (cases ps')
  case Nil
  with assms(5) show ?thesis by (simp add: beyond_child)
next
  case (Cons q qs)
  with assms(1-3) have "declaredDir q = dir"
    using matches_forest_declaredDir by blast
  with Cons assms(4) show ?thesis by (simp add: beyond_sibling)
qed

lemma drain_forest:
  assumes "proper_forest es" "cleanPath dir" "Reader (it_f it) = Some PeekReader"
    "cleanDir (fileName (it_f it)) = dir" "it_err it = None"
    "matches pm ps (flatten_list dir es)" "feeds w (ps @ rest)" "beyond dir rest"
    "nodes_list es < fuel"
  shows "\<exists>it' w'. drain pm fuel it w = Some (es, it', w') \<and> feeds w' rest \<and>
           it_err it' = None \<and> (rest = [] \<longrightarrow> \<not> pr_r w')"
  using assms
proof (induction "nodes_list es" arbitrary: es dir it w ps rest fuel rule: less_induct)
  case less
  note rd = less.prems(3) and par = less.prems(4) and cp = less.prems(2)
  obtain k where fuel: "fuel = Suc k"
    using less.prems(9) by (cases fuel) auto
  show ?case
  proof (cases es)
    case Nil
    with less.prems(6) have "ps = []" by (simp add: matches_Nil)
    with less.prems(7) have f: "feeds w rest" by simp
    from drain_end [OF rd less.prems(5) f, of pm k] less.prems(8) par Nil fuel
    show ?thesis by simp
  next
    case (Cons e es')
    have pe: "proper_entry e" and pes': "proper_forest es'"
      using less.prems(1) Cons by simp_all
    have small': "nodes_list es' < nodes_list es" "nodes_list es' < k"
      using Cons less.prems(9) fuel by (cases e; simp)+
    show ?thesis
    proof (cases e)
      case (FileEntry n)
      have n: "proper n" using pe FileEntry by simp
      from less.prems(6) Cons FileEntry obtain p ps' where
        ps: "ps = p # ps'" and pn: "partName p = joinPath dir n"
        and pk: "part_kind pm p = Some FileKind" and m': "matches pm ps' (flatten_list dir es')"
        using matches_Cons [of pm ps "joinPath dir n" FileKind "flatten_list dir es'"] by auto
      from classify_child(1) [OF cp n pn par pk, of "Some PeekReader"] obtain a where
        cls: "newFileFromPart pm (fileName (it_f it)) p (Some PeekReader) =
                (n, Some (ReaderFile p a), None)" by blast
      let ?it1 = "it\<lparr>it_curFile := Some (ReaderFile p a), it_curName := n, it_err := None\<rparr>"
      from Next_feeds_entry [OF rd _ cls, of w "ps' @ rest"] less.prems(7) ps obtain w1 where
        nx: "Next pm it w = (True, ?it1, w1)" and f1: "feeds w1 (ps' @ rest)" by auto
      from less.hyps [OF small'(1) pes' cp _ _ _ m' f1 less.prems(8) small'(2), of ?it1]
        rd par
      obtain it' w' where
        dr: "drain pm k ?it1 w1 = Some (es', it', w')" and f': "feeds w' rest"
        and e': "it_err it' = None" "rest = [] \<longrightarrow> \<not> pr_r w'" by auto
      from nx dr fuel have "drain pm fuel it w = Some (FileEntry n # es', it', w')"
        by simp
      with f' e' Cons FileEntry show ?thesis by simp
    next
      case (LinkEntry n)
      have n: "proper n" using pe LinkEntry by simp
      from less.prems(6) Cons LinkEntry obtain p ps' where
        ps: "ps = p # ps'" and pn: "partName p = joinPath dir n"
        and pk: "part_kind pm p = Some SymlinkKind" and m': "matches pm ps' (flatten_list dir es')"
        using matches_Cons [of pm ps "joinPath dir n" SymlinkKind "flatten_list dir es'"] by auto
      from classify_child(2) [OF cp n pn par pk, of "Some PeekReader"] obtain t where
        cls: "newFileFromPart pm (fileName (it_f it)) p (Some PeekReader) =
                (n, Some (Symlink t), None)" by blast
      let ?it1 = "it\<lparr>it_curFile := Some (Symlink t), it_curName := n, it_err := None\<rparr>"
      from Next_feeds_entry [OF rd _ cls, of w "ps' @ rest"] less.prems(7) ps obtain w1 where
        nx: "Next pm it w = (True, ?it1, w1)" and f1: "feeds w1 (ps' @ rest)" by auto
      from less.hyps [OF small'(1) pes' cp _ _ _ m' f1 less.prems(8) small'(2), of ?it1]
        rd par
      obtain it' w' where
        dr: "drain pm k ?it1 w1 = Some (es', it', w')" and f': "feeds w' rest"
        and e': "it_err it' = None" "rest = [] \<longrightarrow> \<not> pr_r w'" by auto
      from nx dr fuel have "drain pm fuel it w = Some (LinkEntry n # es', it', w')"
        by simp
      with f' e' Cons LinkEntry show ?thesis by simp
    next
      case (DirEntry n cs)
      have n: "proper n" and pcs: "proper_forest cs" using pe DirEntry by simp_all
      have smallc: "nodes_list cs < nodes_list es" "nodes_list cs < k"
        using Cons DirEntry less.prems(9) fuel by simp_all
      let ?sub = "joinPath dir n"
      have cps: "cleanPath ?sub" using cp n by (rule cleanPath_joinPath)
      from less.prems(6) Cons DirEntry obtain p ps0 where
        ps: "ps = p # ps0" and pn: "partName p = ?sub"
        and pk: "part_kind pm p = Some DirKind"
        and m0: "matches pm ps0 (flatten_list ?sub cs @ flatten_list dir es')"
        using matches_Cons [of pm ps ?sub DirKind "flatten_list ?sub cs @ flatten_list dir es'"]
        by auto
      from matches_append [OF m0] obtain pc ps' where
        ps0: "ps0 = pc @ ps'" and mc: "matches pm pc (flatten_list ?sub cs)"
        and m': "matches pm ps' (flatten_list dir es')" by blast
      from classify_child(3) [OF cp n pn par pk, of "Some PeekReader"] obtain mt where
        cls: "newFileFromPart pm (fileName (it_f it)) p (Some PeekReader) =
                (n, Some (Directory \<lparr>Part = Some p, Reader = Some PeekReader, Mediatype = mt\<rparr>),
                 None)" by blast
      let ?d = "\<lparr>Part = Some p, Reader = Some PeekReader, Mediatype = mt\<rparr>"
      let ?it1 = "it\<lparr>it_curFile := Some (Directory ?d), it_curName := n, it_err := None\<rparr>"
      from Next_feeds_entry [OF rd _ cls, of w "pc @ ps' @ rest"] less.prems(7) ps ps0
      obtain w1 where
        nx: "Next pm it w = (True, ?it1, w1)" and f1: "feeds w1 (pc @ (ps' @ rest))" by auto
      have dfn: "cleanDir (fileName (it_f (Entries ?d))) = ?sub"
        using pn cleanDir_cleanPath [OF cps] by (simp add: Entries_def fileName_Part)
      have byd: "beyond ?sub (ps' @ rest)"
        using m' pes' cp n less.prems(8) by (rule beyond_after_children)
      from less.hyps [OF smallc(1) pcs cps _ dfn _ mc f1 byd smallc(2)]
      obtain itd w2 where
        drc: "drain pm k (Entries ?d) w1 = Some (cs, itd, w2)" and f2: "feeds w2 (ps' @ rest)"
        by (auto simp: Entries_def)
      from less.hyps [OF small'(1) pes' cp _ _ _ m' f2 less.prems(8) small'(2), of ?it1]
        rd par
      obtain it' w' where
        dr: "drain pm k ?it1 w2 = Some (es', it', w')" and f': "feeds w' rest"
        and e': "it_err it' = None" "rest = [] \<longrightarrow> \<not> pr_r w'" by auto
      from nx drc dr fuel have "drain pm fuel it w = Some (DirEntry n cs # es', it', w')"
        by simp
      with f' e' Cons DirEntry show ?thesis by simp
    qed
  qed
qed

lemma feeds_initial: "feeds \<lparr>src_items = map Got ps, src_calls = c, pr_r = True, pr_next = None\<rparr> ps"
  by (simp add: feeds_def)

text \<open>
  C1.  Let the parts be the depth-first pre-order listing of a forest whose names are
  proper path segments: every part carries the path of its entry as file name and a
  Content-Type of the entry's kind.  Then a consumer that drains every directory before it
  asks the parent for the next sibling gets, from the root iterator and recursively from
  every nested iterator, exactly this forest: each iterator yields its directory's
  children in order, by name and kind.  Listed depth-first in pre-order with their paths,
  the yielded entries are the part sequence.  The traversal ends without error, with the
  slot empty and the source exhausted.  Enough fuel is any number above the number of
  entries.
\<close>

theorem drain_yields_tree:
  assumes "proper_forest es"
    and "map (\<lambda>p. (partName p, part_kind pm p)) ps =
         map (\<lambda>(path, k). (path, Some k)) (flatten_list [] es)"
    and "NewFileFromPartReader (map Got ps) mediatype = Inr (root, w)"
    and "nodes_list es < fuel"
  shows "\<exists>ys it' w'. drain pm fuel (Entries root) w = Some (ys, it', w') \<and>
           ys = es \<and>
           map (\<lambda>(path, k). (path, Some k)) (flatten_list [] ys) =
             map (\<lambda>p. (partName p, part_kind pm p)) ps \<and>
           Err it' = None \<and> pr_next w' = None \<and> \<not> pr_r w'"
proof -
  from assms(3) have root: "root = \<lparr>Part = None, Reader = Some PeekReader, Mediatype = mediatype\<rparr>"
    and w: "w = \<lparr>src_items = map Got ps, src_calls = 0, pr_r = True, pr_next = None\<rparr>"
    by (auto simp: NewFileFromPartReader_def split: if_splits)
  have rd: "Reader (it_f (Entries root)) = Some PeekReader"
    and er: "it_err (Entries root) = None"
    by (simp_all add: root Entries_def)
  have par: "cleanDir (fileName (it_f (Entries root))) = []"
    using cleanDir_cleanPath [OF cleanPath_Nil] by (simp add: root Entries_def fileName_Part)
  have m: "matches pm ps (flatten_list [] es)"
    using assms(2) by (simp add: matches_def)
  have f: "feeds w (ps @ [])"
    using feeds_initial [of ps 0] by (simp add: w)
  have b: "beyond [] []" by (simp add: beyond_def)
  from drain_forest [OF assms(1) cleanPath_Nil rd par er m f b assms(4)]
  obtain it' w' where "drain pm fuel (Entries root) w = Some (es, it', w')"
    "feeds w' []" "it_err it' = None" "\<not> pr_r w'" by auto
  moreover from this have "pr_next w' = None"
    by (auto simp: feeds_def split: option.splits)
  ultimately show ?thesis
    using assms(2) by (simp add: Err_def)
qed

theorem drain_yields_tree_witness:
  "proper_forest sample_tree \<and>
   map (\<lambda>p. (partName p, part_kind sample_ParseMediaType p)) sample_parts =
     map (\<lambda>(path, k). (path, Some k)) (flatten_list [] sample_tree) \<and>
   NewFileFromPartReader (map Got sample_parts) multipartFormdataType =
     Inr (sample_root, sample_world (map Got sample_parts) None) \<and>
   (\<exists>it' w'. drain sample_ParseMediaType 10 (Entries sample_root)
                (sample_world (map Got sample_parts) None) = Some (sample_tree, it', w') \<and>
      Err it' = None \<and> pr_next w' = None \<and> \<not> pr_r w')"
proof -
  have p: "proper_forest sample_tree" by code_simp
  have m: "map (\<lambda>p. (partName p, part_kind sample_ParseMediaType p)) sample_parts =
     map (\<lambda>(path, k). (path, Some k)) (flatten_list [] sample_tree)" by code_simp
  have r: "NewFileFromPartReader (map Got sample_parts) multipartFormdataType =
     Inr (sample_root, sample_world (map Got sample_parts) None)"
    by (simp add: NewFileFromPartReader_def isDirectory_def sample_root_def sample_world_def)
  have n: "nodes_list sample_tree < 10" by code_simp
  from drain_yields_tree [OF p m r n] p m r show ?thesis by auto
qed

end
